theory Spec2Isabelle
  imports Main "HOL-Library.Word" "HOL-Library.Multiset"
begin

section \<open>Data model\<close>

text \<open>
  Block heights are Go \<^verbatim>\<open>uint64\<close> values: arithmetic on them wraps around.
  Stream ids are strings, block hashes are 32-byte values, raw block bytes are
  byte slices.
\<close>

type_synonym u64 = "64 word"
type_synonym StreamID = string
type_synonym Hash = "256 word"
type_synonym bytes = "8 word list"

text \<open>
  \<^verbatim>\<open>types.Block\<close> is opaque to the download manager: only \<^verbatim>\<open>NumberU64()\<close> is read.
  A nil \<^verbatim>\<open>*types.Block\<close> is \<open>None\<close> of \<open>Block option\<close>.
\<close>

record Block =
  NumberU64 :: u64
  BlockHash :: Hash

text \<open>
  Modelled from the spec: the \<^verbatim>\<open>blockResult\<close> struct (BlockResult: block and stream id)
  and its accessor \<^verbatim>\<open>getBlockNumber\<close> are declared outside the given sources; the
  manager reads the fields \<^verbatim>\<open>block\<close> and \<^verbatim>\<open>stid\<close>.
\<close>

record blockResult =
  block :: Block
  stid :: StreamID

definition getBlockNumber :: "blockResult \<Rightarrow> u64" where
  "getBlockNumber res = NumberU64 (block res)"

record BlockDownloadDetails =
  loopID :: int
  streamID :: StreamID

text \<open>
  Go errors. \<^verbatim>\<open>errors.As\<close> walks the chain of wrapped errors, so wrapping is part of
  the value. A nil error is \<open>None\<close> of \<open>error option\<close>.
\<close>

datatype error =
  SigVerifyErr string
  | ErrorString string
  | WithMessage string error

text \<open>Run-time panics of slice accesses and of \<^verbatim>\<open>sync.WaitGroup.Add\<close>.\<close>

datatype panic = IndexOutOfRange | SliceBoundsOutOfRange | NegativeWaitGroupCounter

text \<open>
  Requests a method sends to the stream pool (\<^verbatim>\<open>syncProtocol.RemoveStream\<close>). A method
  of the model returns, beside its result and the new state, the list of the requests
  its body issues, in order.
\<close>

datatype poolRequest = RemoveStream StreamID

subsection \<open>Prioritized numbers (the retry queue)\<close>

text \<open>
  Modelled from the spec: \<^verbatim>\<open>prioritizedNumbers\<close> is declared outside the given sources.
  The spec (4.1, 3) describes a multiset of heights ordered ascending, in which
  duplicates are permitted; \<^verbatim>\<open>push\<close> adds a height, \<^verbatim>\<open>pop\<close> removes and returns the
  smallest one, or returns the sentinel 0 when the container is empty. The model is the
  ascending list of the queued heights.
\<close>

type_synonym prioritizedNumbers = "u64 list"

definition newPrioritizedNumbers :: prioritizedNumbers where
  "newPrioritizedNumbers = []"

definition push :: "u64 \<Rightarrow> prioritizedNumbers \<Rightarrow> prioritizedNumbers" where
  "push bn q = insort bn q"

definition pop :: "prioritizedNumbers \<Rightarrow> u64 \<times> prioritizedNumbers" where
  "pop q = (case q of [] \<Rightarrow> (0, []) | bn # q' \<Rightarrow> (bn, q'))"

subsection \<open>Result queue\<close>

text \<open>
  Modelled from the spec: \<^verbatim>\<open>resultQueue\<close> is declared outside the given sources. The
  spec (4.2) describes a min-heap of block results keyed by height. \<^verbatim>\<open>addBlockResults\<close>
  pushes each non-nil block under the given stream id and ignores a block whose height
  is already queued (first writer wins); \<^verbatim>\<open>removeResultsByStreamID\<close> removes every entry
  of the stream and returns the removed heights; \<^verbatim>\<open>len\<close> is the current size. The
  model is the list of the queued results in ascending order of height.
\<close>

type_synonym resultQueue = "blockResult list"

definition newResultQueue :: resultQueue where
  "newResultQueue = []"

fun addBlockResults :: "resultQueue \<Rightarrow> Block option list \<Rightarrow> StreamID \<Rightarrow> resultQueue" where
  "addBlockResults q [] st = q"
| "addBlockResults q (None # blocks) st = addBlockResults q blocks st"
| "addBlockResults q (Some b # blocks) st =
     addBlockResults
       (if NumberU64 b \<in> set (map getBlockNumber q) then q
        else insort_key getBlockNumber \<lparr>block = b, stid = st\<rparr> q)
       blocks st"

definition removeResultsByStreamID :: "resultQueue \<Rightarrow> StreamID \<Rightarrow> u64 list \<times> resultQueue" where
  "removeResultsByStreamID q st =
     (map getBlockNumber (filter (\<lambda>res. stid res = st) q), filter (\<lambda>res. stid res \<noteq> st) q)"

subsection \<open>The download manager\<close>

text \<open>
  \<^verbatim>\<open>chain.CurrentBlock().NumberU64()\<close> is the only use the manager makes of the chain.
\<close>

record blockChain =
  CurrentBlockNumber :: u64

text \<open>
  \<^verbatim>\<open>getBlocksManager\<close>. The source file holds two declarations of the struct with their
  methods: the first (lines 11--213) has the field \<^verbatim>\<open>bdd\<close>, the second (lines 225--421)
  does not. One record serves both; the methods of the second declaration never touch
  \<open>bdd\<close>. The Go maps \<^verbatim>\<open>map[uint64]struct{}\<close> are sets. \<open>resultC\<close> is the buffered
  channel of capacity 1: \<open>True\<close> when a signal is pending. The lock, the logger and
  the transaction handle are left out: with the lock held for a whole method body, each
  method is one atomic step on this record.
\<close>

record getBlocksManager =
  chain :: blockChain
  targetBN :: u64
  requesting :: "u64 set"
  processing :: "u64 set"
  retries :: prioritizedNumbers
  rq :: resultQueue
  bdd :: "u64 \<rightharpoonup> BlockDownloadDetails"
  resultC :: bool

definition newGetBlocksManager :: "blockChain \<Rightarrow> u64 \<Rightarrow> getBlocksManager" where
  "newGetBlocksManager c target =
     \<lparr>chain = c, targetBN = target, requesting = {}, processing = {},
      retries = newPrioritizedNumbers, rq = newResultQueue, bdd = Map.empty,
      resultC = False\<rparr>"

text \<open>\<^verbatim>\<open>addBatchToRequesting\<close>: the loop over \<open>bns\<close> is a fold.\<close>

definition addBatchToRequesting :: "getBlocksManager \<Rightarrow> u64 list \<Rightarrow> getBlocksManager" where
  "addBatchToRequesting gbm bns =
     fold (\<lambda>bn g. g\<lparr>requesting := insert bn (requesting g)\<rparr>) bns gbm"

text \<open>
  \<^verbatim>\<open>availableForMoreTasks\<close>; the constant \<^verbatim>\<open>softQueueCap\<close> is declared outside the
  given sources and is a parameter.
\<close>

definition availableForMoreTasks :: "int \<Rightarrow> getBlocksManager \<Rightarrow> bool" where
  "availableForMoreTasks softQueueCap gbm = (int (length (rq gbm)) < softQueueCap)"

text \<open>
  \<^verbatim>\<open>getBatchFromRetries\<close>: the loop \<^verbatim>\<open>for cnt := 0; cnt < cap; cnt++\<close> with its
  \<^verbatim>\<open>break\<close> on the sentinel 0 and its \<^verbatim>\<open>continue\<close> on a stale height. The loop state is
  the counter, the retry queue and the batch built so far.
\<close>

function getBatchFromRetries_loop ::
  "u64 \<Rightarrow> int \<Rightarrow> int \<Rightarrow> prioritizedNumbers \<Rightarrow> u64 list \<Rightarrow> u64 list \<times> prioritizedNumbers" where
  "getBatchFromRetries_loop curHeight cap cnt q requestBNs =
     (if cnt < cap then
        (case pop q of (bn, q') \<Rightarrow>
           if bn = 0 then (requestBNs, q')
           else if bn \<le> curHeight then getBatchFromRetries_loop curHeight cap (cnt + 1) q' requestBNs
           else getBatchFromRetries_loop curHeight cap (cnt + 1) q' (requestBNs @ [bn]))
      else (requestBNs, q))"
  by pat_completeness auto
termination
  by (relation "measure (\<lambda>(curHeight, cap, cnt, q, requestBNs). nat (cap - cnt))") auto

definition getBatchFromRetries :: "getBlocksManager \<Rightarrow> int \<Rightarrow> u64 list \<times> getBlocksManager" where
  "getBatchFromRetries gbm cap =
     (let curHeight = CurrentBlockNumber (chain gbm) in
      case getBatchFromRetries_loop curHeight cap 0 (retries gbm) [] of
        (requestBNs, q) \<Rightarrow> (requestBNs, gbm\<lparr>retries := q\<rparr>))"

text \<open>
  \<^verbatim>\<open>getBatchFromUnprocessed\<close>, inner loop \<^verbatim>\<open>for bn <= gbm.targetBN\<close>: it walks \<open>bn\<close>
  upwards until a height that is neither requested nor processing is found (appended,
  \<open>bn\<close> incremented, \<^verbatim>\<open>break\<close>) or \<open>bn\<close> passes the target. \<open>bn++\<close> wraps around at
  \<open>2^64\<close>, so with \<open>targetBN = 2^64 - 1\<close> the loop need not end: not returning is
  \<open>None\<close>.
\<close>

partial_function (option) getBatchFromUnprocessed_inner ::
  "getBlocksManager \<Rightarrow> u64 \<Rightarrow> u64 list \<Rightarrow> (u64 \<times> u64 list) option" where
  "getBatchFromUnprocessed_inner gbm bn requestBNs =
     (if bn \<le> targetBN gbm then
        (if bn \<notin> requesting gbm \<and> bn \<notin> processing gbm
         then Some (bn + 1, requestBNs @ [bn])
         else getBatchFromUnprocessed_inner gbm (bn + 1) requestBNs)
      else Some (bn, requestBNs))"

text \<open>The outer loop \<^verbatim>\<open>for cnt := 0; cnt < cap && bn <= gbm.targetBN; cnt++\<close>.\<close>

function getBatchFromUnprocessed_loop ::
  "getBlocksManager \<Rightarrow> int \<Rightarrow> int \<Rightarrow> u64 \<Rightarrow> u64 list \<Rightarrow> u64 list option" where
  "getBatchFromUnprocessed_loop gbm cap cnt bn requestBNs =
     (if cnt < cap \<and> bn \<le> targetBN gbm then
        (case getBatchFromUnprocessed_inner gbm bn requestBNs of
           None \<Rightarrow> None
         | Some (bn', requestBNs') \<Rightarrow> getBatchFromUnprocessed_loop gbm cap (cnt + 1) bn' requestBNs')
      else Some requestBNs)"
  by pat_completeness auto
termination
  by (relation "measure (\<lambda>(gbm, cap, cnt, bn, requestBNs). nat (cap - cnt))") auto

definition getBatchFromUnprocessed :: "getBlocksManager \<Rightarrow> int \<Rightarrow> u64 list option" where
  "getBatchFromUnprocessed gbm cap =
     (let curHeight = CurrentBlockNumber (chain gbm);
          bn = curHeight + 1
      in getBatchFromUnprocessed_loop gbm cap 0 bn [])"

text \<open>
  \<^verbatim>\<open>GetNextBatch\<close> (lines 254--271). The constants \<^verbatim>\<open>numBlocksByNumPerRequest\<close>
  (the spec's BlocksPerRequest) and \<^verbatim>\<open>softQueueCap\<close> are declared outside the given
  sources and are parameters. The result is the batch and the manager after the call.
\<close>

definition GetNextBatch :: "int \<Rightarrow> int \<Rightarrow> getBlocksManager \<Rightarrow> (u64 list \<times> getBlocksManager) option" where
  "GetNextBatch numBlocksByNumPerRequest softQueueCap gbm =
     (let cap = numBlocksByNumPerRequest in
      case getBatchFromRetries gbm cap of (bns, gbm1) \<Rightarrow>
        let cap = cap - int (length bns);
            gbm2 = addBatchToRequesting gbm1 bns
        in if availableForMoreTasks softQueueCap gbm2 then
             (case getBatchFromUnprocessed gbm2 cap of
                None \<Rightarrow> None
              | Some addBNs \<Rightarrow> Some (bns @ addBNs, addBatchToRequesting gbm2 addBNs))
           else Some (bns, gbm2))"

text \<open>
  \<^verbatim>\<open>HandleRequestError\<close>, second declaration (lines 274--292): the heights go back to
  the retry queue and the results of the stream are scrubbed from the result queue. The
  error and the stream id are logged; the body sends nothing to the stream pool (the
  manager holds no handle on it), so the list of pool requests is empty.
\<close>

definition HandleRequestError ::
  "getBlocksManager \<Rightarrow> u64 list \<Rightarrow> error \<Rightarrow> StreamID \<Rightarrow> getBlocksManager \<times> poolRequest list" where
  "HandleRequestError gbm bns err st =
     (let g1 = fold (\<lambda>bn g. g\<lparr>requesting := requesting g - {bn},
                               retries := push bn (retries g)\<rparr>) bns gbm
      in case removeResultsByStreamID (rq g1) st of (removed, q) \<Rightarrow>
           (fold (\<lambda>bn g. g\<lparr>processing := processing g - {bn},
                            retries := push bn (retries g)\<rparr>) removed (g1\<lparr>rq := q\<rparr>),
            []))"

text \<open>
  \<^verbatim>\<open>HandleRequestError\<close>, first declaration (lines 71--89): the scrubbing of the result
  queue is commented out in the source.
\<close>

definition HandleRequestError_bdd ::
  "getBlocksManager \<Rightarrow> u64 list \<Rightarrow> error \<Rightarrow> StreamID \<Rightarrow> getBlocksManager \<times> poolRequest list" where
  "HandleRequestError_bdd gbm bns err st =
     (fold (\<lambda>bn g. g\<lparr>requesting := requesting g - {bn},
                      retries := push bn (retries g)\<rparr>) bns gbm,
      [])"

text \<open>
  \<^verbatim>\<open>HandleRequestResult\<close>, second declaration (lines 295--312). The loop ranges over
  \<open>bns\<close> and reads \<^verbatim>\<open>blocks[i]\<close>: a \<open>blocks\<close> shorter than \<open>bns\<close> panics.
\<close>

fun HandleRequestResult_loop :: "getBlocksManager \<Rightarrow> u64 list \<Rightarrow> Block option list \<Rightarrow> panic + getBlocksManager" where
  "HandleRequestResult_loop g [] blocks = Inr g"
| "HandleRequestResult_loop g (bn # bns) [] = Inl IndexOutOfRange"
| "HandleRequestResult_loop g (bn # bns) (b # blocks) =
     HandleRequestResult_loop
       (let g1 = g\<lparr>requesting := requesting g - {bn}\<rparr> in
        if b = None then g1\<lparr>retries := push bn (retries g1)\<rparr>
        else g1\<lparr>processing := insert bn (processing g1)\<rparr>)
       bns blocks"

definition HandleRequestResult ::
  "getBlocksManager \<Rightarrow> u64 list \<Rightarrow> Block option list \<Rightarrow> StreamID \<Rightarrow> panic + getBlocksManager" where
  "HandleRequestResult gbm bns blocks st =
     (case HandleRequestResult_loop gbm bns blocks of
        Inl p \<Rightarrow> Inl p
      | Inr g \<Rightarrow> Inr (g\<lparr>rq := addBlockResults (rq g) blocks st, resultC := True\<rparr>))"

text \<open>
  \<^verbatim>\<open>HandleRequestResult\<close>, first declaration (lines 92--109): it takes raw block bytes,
  treats a block of at most one byte as missing, records the download details, and
  neither touches the result queue nor signals \<open>resultC\<close>. It returns a nil error.
\<close>

fun HandleRequestResult_bdd_loop ::
  "getBlocksManager \<Rightarrow> u64 list \<Rightarrow> bytes list \<Rightarrow> int \<Rightarrow> StreamID \<Rightarrow> panic + getBlocksManager" where
  "HandleRequestResult_bdd_loop g [] blockBytes lid st = Inr g"
| "HandleRequestResult_bdd_loop g (bn # bns) [] lid st = Inl IndexOutOfRange"
| "HandleRequestResult_bdd_loop g (bn # bns) (bb # blockBytes) lid st =
     HandleRequestResult_bdd_loop
       (let g1 = g\<lparr>requesting := requesting g - {bn}\<rparr> in
        if length bb \<le> 1 then g1\<lparr>retries := push bn (retries g1)\<rparr>
        else g1\<lparr>processing := insert bn (processing g1),
                bdd := (bdd g1)(bn \<mapsto> \<lparr>loopID = lid, streamID = st\<rparr>)\<rparr>)
       bns blockBytes lid st"

definition HandleRequestResult_bdd ::
  "getBlocksManager \<Rightarrow> u64 list \<Rightarrow> bytes list \<Rightarrow> bytes list \<Rightarrow> int \<Rightarrow> StreamID
     \<Rightarrow> panic + (error option \<times> getBlocksManager)" where
  "HandleRequestResult_bdd gbm bns blockBytes sigBytes lid st =
     (case HandleRequestResult_bdd_loop gbm bns blockBytes lid st of
        Inl p \<Rightarrow> Inl p
      | Inr g \<Rightarrow> Inr (None, g))"

text \<open>
  Slice expressions of Go on a list: \<^verbatim>\<open>xs[:n]\<close>, \<^verbatim>\<open>xs[n]\<close> and \<^verbatim>\<open>xs[n:]\<close> with
  their bounds checks. A list has no spare capacity, so the capacity of the slice is
  taken to be its length. On a slice with spare capacity Go lets \<^verbatim>\<open>xs[:n]\<close> pass for
  \<open>len < n \<le> cap\<close>, and it is the following \<^verbatim>\<open>xs[n]\<close> that panics, with an index out
  of range instead of slice bounds out of range: for such \<open>n\<close> the model and the code
  both panic, and only the kind of the panic can differ.
\<close>

definition sliceTo :: "'a list \<Rightarrow> int \<Rightarrow> panic + 'a list" where
  "sliceTo xs n =
     (if n < 0 \<or> int (length xs) < n then Inl SliceBoundsOutOfRange else Inr (take (nat n) xs))"

definition indexAt :: "'a list \<Rightarrow> int \<Rightarrow> panic + 'a" where
  "indexAt xs n =
     (if n < 0 \<or> int (length xs) \<le> n then Inl IndexOutOfRange else Inr (xs ! nat n))"

definition sliceFrom :: "'a list \<Rightarrow> int \<Rightarrow> panic + 'a list" where
  "sliceFrom xs n =
     (if n < 0 \<or> int (length xs) < n then Inl SliceBoundsOutOfRange else Inr (drop (nat n) xs))"

text \<open>
  \<^verbatim>\<open>HandleInsertError\<close>, second declaration (lines 325--355): \<^verbatim>\<open>results[:n]\<close> and
  \<^verbatim>\<open>results[n]\<close> are evaluated first, \<^verbatim>\<open>results[n+1:]\<close> under the test
  \<^verbatim>\<open>n != len(results)\<close>. As in \<open>HandleRequestError\<close> the body sends nothing to the
  stream pool.
\<close>

definition HandleInsertError ::
  "getBlocksManager \<Rightarrow> blockResult list \<Rightarrow> int \<Rightarrow> panic + (getBlocksManager \<times> poolRequest list)" where
  "HandleInsertError gbm results n =
     (case sliceTo results n of
        Inl p \<Rightarrow> Inl p
      | Inr inserted \<Rightarrow>
         (case indexAt results n of
            Inl p \<Rightarrow> Inl p
          | Inr errResult \<Rightarrow>
             (case (if n \<noteq> int (length results) then sliceFrom results (n + 1) else Inr []) of
                Inl p \<Rightarrow> Inl p
              | Inr abandoned \<Rightarrow>
                 (let g1 = fold (\<lambda>res g. g\<lparr>processing := processing g - {getBlockNumber res}\<rparr>)
                             inserted gbm;
                      g2 = fold (\<lambda>res g. g\<lparr>rq := addBlockResults (rq g) [Some (block res)] (stid res)\<rparr>)
                             abandoned g1;
                      g3 = g2\<lparr>processing := processing g2 - {getBlockNumber errResult},
                              retries := push (getBlockNumber errResult) (retries g2)\<rparr>
                  in (case removeResultsByStreamID (rq g3) (stid errResult) of
                        (removed, q) \<Rightarrow>
                          Inr (fold (\<lambda>bn g. g\<lparr>processing := processing g - {bn},
                                               retries := push bn (retries g)\<rparr>)
                                 removed (g3\<lparr>rq := q\<rparr>),
                               []))))))"

subsection \<open>The short-range helper\<close>

text \<open>
  \<^verbatim>\<open>srHelper\<close> reads \<^verbatim>\<open>config.Concurrency\<close> and talks to the stream pool
  (\<^verbatim>\<open>syncProtocol\<close>). Of the pool the model keeps what the methods below observe:
  the number of streams, and the reply \<^verbatim>\<open>GetBlockHashes\<close> gives to each of the
  requests, numbered in the order in which the workers complete.
\<close>

record Config =
  Concurrency :: int

record hashesReply =
  replyHashes :: "Hash list"
  replyStid :: StreamID
  replyErr :: "error option"

record syncProtocol =
  NumStreams :: int
  GetBlockHashes :: "nat \<Rightarrow> hashesReply"

record srHelper =
  syncProtocol :: syncProtocol
  config :: Config

text \<open>\<^verbatim>\<open>checkPrerequisites\<close> (lines 139--144): a nil error is \<open>None\<close>.\<close>

definition checkPrerequisites :: "srHelper \<Rightarrow> error option" where
  "checkPrerequisites sh =
     (if NumStreams (syncProtocol sh) < Concurrency (config sh)
      then Some (ErrorString ''not enough streams'')
      else None)"

text \<open>
  Modelled from the spec: the caller of \<^verbatim>\<open>checkPrerequisites\<close> (the driver of one sync
  cycle) is outside the given sources. The spec (7) says that a prerequisite failure is
  returned before the cycle starts and that the cycle does not run. The cycle is a
  function on the state of the node.
\<close>

definition runCycle :: "srHelper \<Rightarrow> ('s \<Rightarrow> error option \<times> 's) \<Rightarrow> 's \<Rightarrow> error option \<times> 's" where
  "runCycle sh cycle s =
     (case checkPrerequisites sh of
        Some err \<Rightarrow> (Some err, s)
      | None \<Rightarrow> cycle s)"

text \<open>
  \<^verbatim>\<open>doGetBlockHashesRequest\<close> (lines 160--176) on the reply of the pool: the result
  triple and the pool requests issued. A nil slice is the empty list.
\<close>

definition doGetBlockHashesRequest ::
  "hashesReply \<Rightarrow> u64 list \<Rightarrow> (Hash list \<times> StreamID \<times> error option) \<times> poolRequest list" where
  "doGetBlockHashesRequest reply bns =
     (case replyErr reply of
        Some err \<Rightarrow> (([], replyStid reply, Some err), [])
      | None \<Rightarrow>
          if length (replyHashes reply) \<noteq> length bns
          then (([], replyStid reply,
                 Some (ErrorString ''unexpected get block hashes result delivered'')),
                [RemoveStream (replyStid reply)])
          else ((replyHashes reply, replyStid reply, None), []))"

text \<open>
  Modelled from the spec: \<^verbatim>\<open>blockHashResults\<close> with \<^verbatim>\<open>newBlockHashResults\<close> and
  \<^verbatim>\<open>addResult\<close> is declared outside the given sources. The spec (4.3, 4.5) says that
  it collects, for the window of heights, one response per peer together with the peer's
  stream id, and that all responses are recorded in it.
\<close>

record blockHashResults =
  window :: "u64 list"
  responses :: "(Hash list \<times> StreamID) list"

definition newBlockHashResults :: "u64 list \<Rightarrow> blockHashResults" where
  "newBlockHashResults bns = \<lparr>window = bns, responses = []\<rparr>"

definition addResult :: "blockHashResults \<Rightarrow> Hash list \<Rightarrow> StreamID \<Rightarrow> blockHashResults" where
  "addResult res hashes st = res\<lparr>responses := responses res @ [(hashes, st)]\<rparr>"

text \<open>
  \<^verbatim>\<open>getHashChain\<close> (lines 24--63). Each of the \<open>Concurrency\<close> goroutines performs
  one request and, unless it failed, one \<^verbatim>\<open>addResult\<close>; both are atomic on the shared
  state, so the goroutines are taken in the order in which they complete. The state
  threaded through is the results and the pool requests issued so far.
\<close>

definition getHashChain_worker ::
  "srHelper \<Rightarrow> u64 list \<Rightarrow> nat \<Rightarrow> blockHashResults \<times> poolRequest list
     \<Rightarrow> blockHashResults \<times> poolRequest list" where
  "getHashChain_worker sh bns i acc =
     (case doGetBlockHashesRequest (GetBlockHashes (syncProtocol sh) i) bns of
        ((hashes, st, err), reqs) \<Rightarrow>
          if err \<noteq> None then (fst acc, snd acc @ reqs)
          else (addResult (fst acc) hashes st, snd acc @ reqs))"

text \<open>
  The part of \<^verbatim>\<open>getHashChain\<close> up to \<^verbatim>\<open>wg.Wait()\<close>. \<^verbatim>\<open>wg.Add\<close> panics on a negative
  count.
\<close>

definition getHashChain_gather ::
  "srHelper \<Rightarrow> u64 list \<Rightarrow> panic + (blockHashResults \<times> poolRequest list)" where
  "getHashChain_gather sh bns =
     (if Concurrency (config sh) < 0 then Inl NegativeWaitGroupCounter
      else Inr (fold (getHashChain_worker sh bns) [0 ..< nat (Concurrency (config sh))]
                  (newBlockHashResults bns, [])))"

text \<open>
  The whole of \<^verbatim>\<open>getHashChain\<close>: after the barrier, a cancelled context returns its
  error; otherwise \<^verbatim>\<open>computeLongestHashChain\<close>, which is declared outside the given
  sources and is a parameter, gives the chain and the whitelist.
\<close>

definition getHashChain ::
  "(blockHashResults \<Rightarrow> Hash list \<times> StreamID list) \<Rightarrow> error option \<Rightarrow> srHelper \<Rightarrow> u64 list
     \<Rightarrow> panic + ((Hash list \<times> StreamID list \<times> error option) \<times> poolRequest list)" where
  "getHashChain computeLongestHashChain ctxErr sh bns =
     (case getHashChain_gather sh bns of
        Inl p \<Rightarrow> Inl p
      | Inr (res, reqs) \<Rightarrow>
          (case ctxErr of
             Some err \<Rightarrow> Inr (([], [], Some err), reqs)
           | None \<Rightarrow>
               (case computeLongestHashChain res of
                  (hashChain, wl) \<Rightarrow> Inr ((hashChain, wl, None), reqs))))"

text \<open>
  \<^verbatim>\<open>blameAllStreams\<close> (lines 214--220). Modelled from the spec: the variable
  \<^verbatim>\<open>emptySigVerifyErr\<close> is declared outside the given sources; by the spec it stands
  for the empty-signature-verification error, here the constructor \<open>SigVerifyErr\<close>.
  \<^verbatim>\<open>errors.As\<close> is false on a nil error and otherwise looks for the first error of the
  chain that matches.
\<close>

fun inChain_sigVerifyErr :: "error \<Rightarrow> bool" where
  "inChain_sigVerifyErr (SigVerifyErr msg) = True"
| "inChain_sigVerifyErr (ErrorString msg) = False"
| "inChain_sigVerifyErr (WithMessage msg err) = inChain_sigVerifyErr err"

definition errors_As_emptySigVerifyErr :: "error option \<Rightarrow> bool" where
  "errors_As_emptySigVerifyErr err =
     (case err of None \<Rightarrow> False | Some e \<Rightarrow> inChain_sigVerifyErr e)"

definition blameAllStreams :: "Block list \<Rightarrow> int \<Rightarrow> error option \<Rightarrow> bool" where
  "blameAllStreams blocks errIndex err =
     (if errors_As_emptySigVerifyErr err \<and> errIndex = int (length blocks) - 1 then False
      else True)"

subsection \<open>Vocabulary of the statements\<close>

text \<open>
  \<open>numPopped k q\<close> is the number of heights the loop of \<open>getBatchFromRetries\<close> takes
  off the retry queue \<open>q\<close> when it may run \<open>k\<close> times: it pops once per iteration and
  stops when the iterations are used up, when the queue is empty, or right after it has
  popped a 0, which it reads as the sentinel of the empty queue.
\<close>

fun numPopped :: "nat \<Rightarrow> u64 list \<Rightarrow> nat" where
  "numPopped 0 q = 0"
| "numPopped (Suc k) [] = 0"
| "numPopped (Suc k) (bn # q) = (if bn = 0 then 1 else Suc (numPopped k q))"

text \<open>\<open>heightsFrom bn n\<close> are the \<open>n\<close> contiguous heights \<open>bn, bn + 1, \<dots>\<close>.\<close>

primrec heightsFrom :: "u64 \<Rightarrow> nat \<Rightarrow> u64 list" where
  "heightsFrom bn 0 = []"
| "heightsFrom bn (Suc n) = bn # heightsFrom (bn + 1) n"

text \<open>
  The equations of the two counted loops are unconditional recursions; they are unfolded
  by hand where needed.
\<close>

declare getBatchFromRetries_loop.simps [simp del]
declare getBatchFromUnprocessed_loop.simps [simp del]

section \<open>Properties of the short-range helper\<close>

lemma getHashChain_worker_fold:
  "fold (getHashChain_worker sh bns) is (res, reqs) =
     (res\<lparr>responses := responses res @
         map (\<lambda>r. (replyHashes r, replyStid r))
           (filter (\<lambda>r. replyErr r = None \<and> length (replyHashes r) = length bns)
              (map (GetBlockHashes (syncProtocol sh)) is))\<rparr>,
      reqs @ map (\<lambda>r. RemoveStream (replyStid r))
           (filter (\<lambda>r. replyErr r = None \<and> length (replyHashes r) \<noteq> length bns)
              (map (GetBlockHashes (syncProtocol sh)) is)))"
  by (induction "is" arbitrary: res reqs)
     (auto simp: getHashChain_worker_def doGetBlockHashesRequest_def addResult_def
           split: option.splits)

lemma getHashChain_gather_state:
  "getHashChain_gather sh bns =
     (if Concurrency (config sh) < 0 then Inl NegativeWaitGroupCounter
      else Inr (\<lparr>window = bns,
           responses = map (\<lambda>r. (replyHashes r, replyStid r))
             (filter (\<lambda>r. replyErr r = None \<and> length (replyHashes r) = length bns)
               (map (GetBlockHashes (syncProtocol sh)) [0 ..< nat (Concurrency (config sh))]))\<rparr>,
          map (\<lambda>r. RemoveStream (replyStid r))
             (filter (\<lambda>r. replyErr r = None \<and> length (replyHashes r) \<noteq> length bns)
               (map (GetBlockHashes (syncProtocol sh)) [0 ..< nat (Concurrency (config sh))]))))"
  by (simp add: getHashChain_gather_def getHashChain_worker_fold newBlockHashResults_def)

text \<open>
  Claim C9. In \<open>getHashChain\<close>, a reply of the pool that carries no error and whose
  number of hashes differs from \<open>len(bns)\<close> makes the helper ask the pool to remove the
  replying stream, and the reply is not added to the hash-chain results; a reply that
  carries no error and has \<open>len(bns)\<close> hashes is recorded with its stream id. Stated of
  the whole call, for all workers at once: the \<open>RemoveStream\<close> requests that
  \<open>getHashChain\<close> issues are exactly those for the error-free replies of a wrong
  length, whether or not the context was cancelled; and the results from which the
  longest hash chain is computed hold exactly the error-free replies of the right
  length, in order. (A reply that carries an error is dropped without a request to the
  pool.)
\<close>

theorem getHashChain_spec:
  "getHashChain computeLongestHashChain ctxErr sh bns =
     (if Concurrency (config sh) < 0 then Inl NegativeWaitGroupCounter
      else
        (let replies = map (GetBlockHashes (syncProtocol sh)) [0 ..< nat (Concurrency (config sh))];
             res = \<lparr>window = bns,
                    responses = map (\<lambda>r. (replyHashes r, replyStid r))
                      (filter (\<lambda>r. replyErr r = None \<and> length (replyHashes r) = length bns) replies)\<rparr>;
             reqs = map (\<lambda>r. RemoveStream (replyStid r))
                      (filter (\<lambda>r. replyErr r = None \<and> length (replyHashes r) \<noteq> length bns) replies)
         in case ctxErr of
              Some err \<Rightarrow> Inr (([], [], Some err), reqs)
            | None \<Rightarrow> Inr ((fst (computeLongestHashChain res), snd (computeLongestHashChain res), None),
                           reqs)))"
  by (simp add: getHashChain_def getHashChain_gather_state Let_def split: option.splits prod.splits)

text \<open>
  Three workers on the window \<open>[10, 11]\<close>: stream s1 replies with two hashes, s2 with
  one, s3 with an error. Only s2 is removed, and only the reply of s1 reaches the
  computation of the chain, which here returns the hashes of the first response and the
  streams of all responses.
\<close>

theorem getHashChain_witness:
  "getHashChain
     (\<lambda>res. (case responses res of [] \<Rightarrow> [] | r # rs \<Rightarrow> fst r, map snd (responses res))) None
     \<lparr>syncProtocol = \<lparr>NumStreams = 3,
        GetBlockHashes = (\<lambda>i. if i = 0 then \<lparr>replyHashes = [1, 2], replyStid = ''s1'', replyErr = None\<rparr>
                              else if i = 1 then \<lparr>replyHashes = [1], replyStid = ''s2'', replyErr = None\<rparr>
                              else \<lparr>replyHashes = [], replyStid = ''s3'', replyErr = Some (ErrorString ''timeout'')\<rparr>)\<rparr>,
      config = \<lparr>Concurrency = 3\<rparr>\<rparr> [10, 11]
   = Inr (([1, 2], [''s1''], None), [RemoveStream ''s2''])"
  using getHashChain_spec [of
     "\<lambda>res. (case responses res of [] \<Rightarrow> [] | r # rs \<Rightarrow> fst r, map snd (responses res))" None
     "\<lparr>syncProtocol = \<lparr>NumStreams = 3,
        GetBlockHashes = (\<lambda>i. if i = 0 then \<lparr>replyHashes = [1, 2], replyStid = ''s1'', replyErr = None\<rparr>
                              else if i = 1 then \<lparr>replyHashes = [1], replyStid = ''s2'', replyErr = None\<rparr>
                              else \<lparr>replyHashes = [], replyStid = ''s3'', replyErr = Some (ErrorString ''timeout'')\<rparr>)\<rparr>,
      config = \<lparr>Concurrency = 3\<rparr>\<rparr>" "[10, 11]"]
  by (simp add: upt_rec)

text \<open>
  Claim C10. \<open>checkPrerequisites\<close> returns a non-nil error if and only if the pool
  reports fewer streams than \<open>Concurrency\<close>; and a driver that checks the
  prerequisites first returns that error with the state of the node untouched (the cycle
  does not run), and otherwise runs the cycle.
\<close>

theorem checkPrerequisites_spec:
  "(checkPrerequisites sh \<noteq> None) = (NumStreams (syncProtocol sh) < Concurrency (config sh))
   \<and> (if NumStreams (syncProtocol sh) < Concurrency (config sh)
       then runCycle sh cycle s = (checkPrerequisites sh, s)
       else runCycle sh cycle s = cycle s)"
  by (simp add: checkPrerequisites_def runCycle_def)

text \<open>
  Claim C6. \<open>blameAllStreams\<close> returns false when the error is (or wraps) the
  empty-signature-verification error and \<open>errIndex = len(blocks) - 1\<close>, and true in
  every other case.
\<close>

theorem blameAllStreams_spec:
  "blameAllStreams blocks errIndex err =
     (\<not> (errors_As_emptySigVerifyErr err \<and> errIndex = int (length blocks) - 1))"
  by (simp add: blameAllStreams_def)

text \<open>
  The failure at the last of two blocks with a wrapped signature error is not blamed;
  the same error at the first block, and another error at the last block, are.
\<close>

theorem blameAllStreams_witness:
  "blameAllStreams [\<lparr>NumberU64 = 7, BlockHash = 1\<rparr>, \<lparr>NumberU64 = 8, BlockHash = 2\<rparr>] 1
      (Some (WithMessage ''insert'' (SigVerifyErr ''empty signature''))) = False
   \<and> blameAllStreams [\<lparr>NumberU64 = 7, BlockHash = 1\<rparr>, \<lparr>NumberU64 = 8, BlockHash = 2\<rparr>] 0
      (Some (SigVerifyErr ''empty signature'')) = True
   \<and> blameAllStreams [\<lparr>NumberU64 = 7, BlockHash = 1\<rparr>] 0 (Some (ErrorString ''bad block'')) = True"
  using blameAllStreams_spec [of "[\<lparr>NumberU64 = 7, BlockHash = 1\<rparr>, \<lparr>NumberU64 = 8, BlockHash = 2\<rparr>]" 1
          "Some (WithMessage ''insert'' (SigVerifyErr ''empty signature''))"]
        blameAllStreams_spec [of "[\<lparr>NumberU64 = 7, BlockHash = 1\<rparr>, \<lparr>NumberU64 = 8, BlockHash = 2\<rparr>]" 0
          "Some (SigVerifyErr ''empty signature'')"]
        blameAllStreams_spec [of "[\<lparr>NumberU64 = 7, BlockHash = 1\<rparr>]" 0 "Some (ErrorString ''bad block'')"]
  by (simp add: errors_As_emptySigVerifyErr_def)

section \<open>Properties of the download manager\<close>

subsection \<open>The retry queue\<close>

text \<open>
  The queue stays ascending under \<open>push\<close>, and \<open>pop\<close> on an ascending queue returns
  its least height.
\<close>

lemma sorted_push: "sorted q \<Longrightarrow> sorted (push bn q)"
  by (simp add: push_def sorted_insort)

lemma pop_least: "sorted (bn # q) \<Longrightarrow> fst (pop (bn # q)) = Min (set (bn # q))"
  by (auto simp add: pop_def intro!: Min_eqI [symmetric])

lemma mset_fold_push: "mset (fold push bns q) = mset q + mset bns"
  by (induction bns arbitrary: q) (simp_all add: push_def)

subsection \<open>The loops of the handlers in closed form\<close>

lemma fold_requesting_retries:
  "fold (\<lambda>bn g. g\<lparr>requesting := requesting g - {bn}, retries := push bn (retries g)\<rparr>) bns gbm =
     gbm\<lparr>requesting := requesting gbm - set bns, retries := fold push bns (retries gbm)\<rparr>"
proof (induction bns arbitrary: gbm)
  case Nil
  show ?case by simp
next
  case (Cons bn bns)
  have "requesting gbm - {bn} - set bns = requesting gbm - insert bn (set bns)" by blast
  with Cons show ?case by simp
qed

lemma fold_processing_retries:
  "fold (\<lambda>bn g. g\<lparr>processing := processing g - {bn}, retries := push bn (retries g)\<rparr>) bns gbm =
     gbm\<lparr>processing := processing gbm - set bns, retries := fold push bns (retries gbm)\<rparr>"
proof (induction bns arbitrary: gbm)
  case Nil
  show ?case by simp
next
  case (Cons bn bns)
  have "processing gbm - {bn} - set bns = processing gbm - insert bn (set bns)" by blast
  with Cons show ?case by simp
qed

lemma fold_processing_inserted:
  "fold (\<lambda>res g. g\<lparr>processing := processing g - {getBlockNumber res}\<rparr>) rs gbm =
     gbm\<lparr>processing := processing gbm - set (map getBlockNumber rs)\<rparr>"
proof (induction rs arbitrary: gbm)
  case Nil
  show ?case by simp
next
  case (Cons r rs)
  have "processing gbm - {getBlockNumber r} - getBlockNumber ` set rs =
        processing gbm - insert (getBlockNumber r) (getBlockNumber ` set rs)" by blast
  with Cons show ?case by simp
qed

lemma fold_rq_abandoned:
  "fold (\<lambda>res g. g\<lparr>rq := addBlockResults (rq g) [Some (block res)] (stid res)\<rparr>) rs gbm =
     gbm\<lparr>rq := fold (\<lambda>res q. addBlockResults q [Some (block res)] (stid res)) rs (rq gbm)\<rparr>"
  by (induction rs arbitrary: gbm) simp_all

lemma HandleRequestError_state:
  "HandleRequestError gbm bns err st =
     (gbm\<lparr>requesting := requesting gbm - set bns,
          processing := processing gbm - set (map getBlockNumber (filter (\<lambda>res. stid res = st) (rq gbm))),
          retries := fold push (bns @ map getBlockNumber (filter (\<lambda>res. stid res = st) (rq gbm))) (retries gbm),
          rq := filter (\<lambda>res. stid res \<noteq> st) (rq gbm)\<rparr>, [])"
  by (simp add: HandleRequestError_def removeResultsByStreamID_def fold_requesting_retries
        fold_processing_retries)

lemma HandleRequestError_bdd_state:
  "HandleRequestError_bdd gbm bns err st =
     (gbm\<lparr>requesting := requesting gbm - set bns, retries := fold push bns (retries gbm)\<rparr>, [])"
  by (simp add: HandleRequestError_bdd_def fold_requesting_retries)

lemma HandleRequestResult_loop_state:
  "HandleRequestResult_loop g bns blocks =
     (if length blocks < length bns then Inl IndexOutOfRange
      else Inr (g\<lparr>requesting := requesting g - set bns,
                  processing := processing g \<union> set (map fst (filter (\<lambda>p. snd p \<noteq> None) (zip bns blocks))),
                  retries := fold push (map fst (filter (\<lambda>p. snd p = None) (zip bns blocks))) (retries g)\<rparr>))"
proof (induction g bns blocks rule: HandleRequestResult_loop.induct)
  case (1 g blocks)
  show ?case by simp
next
  case (2 g bn bns)
  show ?case by simp
next
  case (3 g bn bns b blocks)
  have "requesting g - {bn} - set bns = requesting g - insert bn (set bns)" by blast
  with 3 show ?case by (simp add: Let_def)
qed

lemma HandleRequestResult_bdd_loop_state:
  "HandleRequestResult_bdd_loop g bns blockBytes lid st =
     (if length blockBytes < length bns then Inl IndexOutOfRange
      else Inr (g\<lparr>requesting := requesting g - set bns,
                  processing := processing g \<union> set (map fst (filter (\<lambda>p. 1 < length (snd p)) (zip bns blockBytes))),
                  retries := fold push (map fst (filter (\<lambda>p. length (snd p) \<le> 1) (zip bns blockBytes))) (retries g),
                  bdd := (\<lambda>bn. if bn \<in> set (map fst (filter (\<lambda>p. 1 < length (snd p)) (zip bns blockBytes)))
                                then Some \<lparr>loopID = lid, streamID = st\<rparr> else bdd g bn)\<rparr>))"
proof (induction g bns blockBytes lid st rule: HandleRequestResult_bdd_loop.induct)
  case (1 g blockBytes lid st)
  show ?case by simp
next
  case (2 g bn bns lid st)
  show ?case by simp
next
  case (3 g bn bns bb blockBytes lid st)
  have "requesting g - {bn} - set bns = requesting g - insert bn (set bns)" by blast
  with 3 show ?case by (auto simp add: Let_def fun_eq_iff not_le)
qed

subsection \<open>\<open>HandleRequestError\<close>\<close>

text \<open>
  Claim C1, as it holds of the code. \<open>HandleRequestError(bns, err, sid)\<close> of the second
  declaration removes every height of \<open>bns\<close> from \<open>requesting\<close> and pushes it into
  \<open>retries\<close>; every result queued under \<open>sid\<close> is removed from the result queue, its
  height removed from \<open>processing\<close> and pushed into \<open>retries\<close>; nothing else changes,
  and the method sends no request to the stream pool (the eviction of \<open>sid\<close> is not its
  doing). \<open>HandleRequestError\<close> of the first declaration does the first step only: it
  leaves the result queue and \<open>processing\<close> as they are, and sends no request to the
  pool either.
\<close>

theorem HandleRequestError_effect:
  "fst (HandleRequestError gbm bns err st) =
     gbm\<lparr>requesting := requesting gbm - set bns,
         processing := processing gbm - set (map getBlockNumber (filter (\<lambda>res. stid res = st) (rq gbm))),
         retries := fold push (bns @ map getBlockNumber (filter (\<lambda>res. stid res = st) (rq gbm))) (retries gbm),
         rq := filter (\<lambda>res. stid res \<noteq> st) (rq gbm)\<rparr>
   \<and> mset (retries (fst (HandleRequestError gbm bns err st))) =
       mset (retries gbm) + mset bns + mset (map getBlockNumber (filter (\<lambda>res. stid res = st) (rq gbm)))
   \<and> snd (HandleRequestError gbm bns err st) = []
   \<and> fst (HandleRequestError_bdd gbm bns err st) =
       gbm\<lparr>requesting := requesting gbm - set bns, retries := fold push bns (retries gbm)\<rparr>
   \<and> snd (HandleRequestError_bdd gbm bns err st) = []"
  by (simp add: HandleRequestError_state HandleRequestError_bdd_state mset_fold_push)

text \<open>
  The claim as stated fails at this input: height 5 was requested from stream s1, and
  the result of height 7 from s1 is queued. The second declaration sends no
  \<open>RemoveStream\<close> for s1; the first declaration, besides, keeps the result of s1 in the
  queue and 7 in \<open>processing\<close>.
\<close>

theorem HandleRequestError_no_eviction:
  "RemoveStream ''s1'' \<notin> set (snd (HandleRequestError
      \<lparr>chain = \<lparr>CurrentBlockNumber = 4\<rparr>, targetBN = 20, requesting = {5}, processing = {7},
       retries = [], rq = [\<lparr>block = \<lparr>NumberU64 = 7, BlockHash = 1\<rparr>, stid = ''s1''\<rparr>],
       bdd = Map.empty, resultC = False\<rparr>
      [5] (ErrorString ''timeout'') ''s1''))
   \<and> rq (fst (HandleRequestError_bdd
      \<lparr>chain = \<lparr>CurrentBlockNumber = 4\<rparr>, targetBN = 20, requesting = {5}, processing = {7},
       retries = [], rq = [\<lparr>block = \<lparr>NumberU64 = 7, BlockHash = 1\<rparr>, stid = ''s1''\<rparr>],
       bdd = Map.empty, resultC = False\<rparr>
      [5] (ErrorString ''timeout'') ''s1''))
     = [\<lparr>block = \<lparr>NumberU64 = 7, BlockHash = 1\<rparr>, stid = ''s1''\<rparr>]
   \<and> 7 \<in> processing (fst (HandleRequestError_bdd
      \<lparr>chain = \<lparr>CurrentBlockNumber = 4\<rparr>, targetBN = 20, requesting = {5}, processing = {7},
       retries = [], rq = [\<lparr>block = \<lparr>NumberU64 = 7, BlockHash = 1\<rparr>, stid = ''s1''\<rparr>],
       bdd = Map.empty, resultC = False\<rparr>
      [5] (ErrorString ''timeout'') ''s1''))"
  by (simp add: HandleRequestError_def HandleRequestError_bdd_def removeResultsByStreamID_def
        push_def getBlockNumber_def)

text \<open>
  Claim C7, as it holds of the code. A second \<open>HandleRequestError\<close> with the same
  arguments leaves \<open>requesting\<close>, \<open>processing\<close> and the result queue as the first call
  left them, but pushes every height of \<open>bns\<close> into \<open>retries\<close> once more: the retry
  queue keeps duplicates, so the state after two calls differs from the state after one
  by a second copy of each height of \<open>bns\<close>.
\<close>

theorem HandleRequestError_repeated:
  "fst (HandleRequestError (fst (HandleRequestError gbm bns err st)) bns err st) =
     (fst (HandleRequestError gbm bns err st))
       \<lparr>retries := fold push bns (retries (fst (HandleRequestError gbm bns err st)))\<rparr>
   \<and> mset (retries (fst (HandleRequestError (fst (HandleRequestError gbm bns err st)) bns err st))) =
       mset (retries (fst (HandleRequestError gbm bns err st))) + mset bns"
proof -
  have "requesting gbm - set bns - set bns = requesting gbm - set bns" by blast
  then show ?thesis
    by (simp add: HandleRequestError_state mset_fold_push)
qed

text \<open>
  The claim as stated fails at this input: after one call the retry queue is \<open>[5]\<close>,
  after two it is \<open>[5, 5]\<close>, so the two states differ.
\<close>

theorem HandleRequestError_not_idempotent:
  "retries (fst (HandleRequestError
      \<lparr>chain = \<lparr>CurrentBlockNumber = 4\<rparr>, targetBN = 20, requesting = {5}, processing = {},
       retries = [], rq = [], bdd = Map.empty, resultC = False\<rparr>
      [5] (ErrorString ''timeout'') ''s1'')) = [5]
   \<and> retries (fst (HandleRequestError (fst (HandleRequestError
      \<lparr>chain = \<lparr>CurrentBlockNumber = 4\<rparr>, targetBN = 20, requesting = {5}, processing = {},
       retries = [], rq = [], bdd = Map.empty, resultC = False\<rparr>
      [5] (ErrorString ''timeout'') ''s1'')) [5] (ErrorString ''timeout'') ''s1'')) = [5, 5]
   \<and> fst (HandleRequestError (fst (HandleRequestError
      \<lparr>chain = \<lparr>CurrentBlockNumber = 4\<rparr>, targetBN = 20, requesting = {5}, processing = {},
       retries = [], rq = [], bdd = Map.empty, resultC = False\<rparr>
      [5] (ErrorString ''timeout'') ''s1'')) [5] (ErrorString ''timeout'') ''s1'')
     \<noteq> fst (HandleRequestError
      \<lparr>chain = \<lparr>CurrentBlockNumber = 4\<rparr>, targetBN = 20, requesting = {5}, processing = {},
       retries = [], rq = [], bdd = Map.empty, resultC = False\<rparr>
      [5] (ErrorString ''timeout'') ''s1'')"
  by (simp add: HandleRequestError_def removeResultsByStreamID_def push_def)

subsection \<open>\<open>HandleRequestResult\<close>\<close>

text \<open>
  Claim C2, as it holds of the code. With at least as many blocks as heights (fewer
  blocks panic), \<open>HandleRequestResult(bns, blocks, sid)\<close> of the second declaration
  removes every \<open>bns[i]\<close> from \<open>requesting\<close>, pushes \<open>bns[i]\<close> into \<open>retries\<close> where
  \<open>blocks[i]\<close> is nil and puts it into \<open>processing\<close> otherwise, then hands the blocks to
  the result queue under \<open>sid\<close> and leaves a signal pending on \<open>resultC\<close>; it records
  no download details. \<open>HandleRequestResult\<close> of the first declaration does the same
  on \<open>requesting\<close>, \<open>retries\<close> and \<open>processing\<close>, a block of at most one byte counting
  as missing, and records the download details of every height it puts into
  \<open>processing\<close>; it neither touches the result queue nor signals \<open>resultC\<close>.
\<close>

theorem HandleRequestResult_effect:
  "HandleRequestResult gbm bns blocks st =
     (if length blocks < length bns then Inl IndexOutOfRange
      else Inr (gbm\<lparr>requesting := requesting gbm - set bns,
                    processing := processing gbm \<union> set (map fst (filter (\<lambda>p. snd p \<noteq> None) (zip bns blocks))),
                    retries := fold push (map fst (filter (\<lambda>p. snd p = None) (zip bns blocks))) (retries gbm),
                    rq := addBlockResults (rq gbm) blocks st,
                    resultC := True\<rparr>))
   \<and> HandleRequestResult_bdd gbm bns blockBytes sigBytes lid st =
     (if length blockBytes < length bns then Inl IndexOutOfRange
      else Inr (None,
                gbm\<lparr>requesting := requesting gbm - set bns,
                    processing := processing gbm \<union> set (map fst (filter (\<lambda>p. 1 < length (snd p)) (zip bns blockBytes))),
                    retries := fold push (map fst (filter (\<lambda>p. length (snd p) \<le> 1) (zip bns blockBytes))) (retries gbm),
                    bdd := (\<lambda>bn. if bn \<in> set (map fst (filter (\<lambda>p. 1 < length (snd p)) (zip bns blockBytes)))
                                  then Some \<lparr>loopID = lid, streamID = st\<rparr> else bdd gbm bn)\<rparr>))"
  by (simp add: HandleRequestResult_def HandleRequestResult_bdd_def
        HandleRequestResult_loop_state HandleRequestResult_bdd_loop_state)

text \<open>
  The claim as stated fails at this input: heights 5 and 6 were requested, the block of
  5 arrives and the block of 6 is missing. The second declaration queues the block and
  signals, but records no download details for 5; the first declaration records them,
  but the result queue stays empty and no signal is pending.
\<close>

theorem HandleRequestResult_variants:
  "HandleRequestResult
      \<lparr>chain = \<lparr>CurrentBlockNumber = 4\<rparr>, targetBN = 20, requesting = {5, 6}, processing = {},
       retries = [], rq = [], bdd = Map.empty, resultC = False\<rparr>
      [5, 6] [Some \<lparr>NumberU64 = 5, BlockHash = 1\<rparr>, None] ''s1''
    = Inr \<lparr>chain = \<lparr>CurrentBlockNumber = 4\<rparr>, targetBN = 20, requesting = {}, processing = {5},
       retries = [6], rq = [\<lparr>block = \<lparr>NumberU64 = 5, BlockHash = 1\<rparr>, stid = ''s1''\<rparr>],
       bdd = Map.empty, resultC = True\<rparr>
   \<and> HandleRequestResult_bdd
      \<lparr>chain = \<lparr>CurrentBlockNumber = 4\<rparr>, targetBN = 20, requesting = {5, 6}, processing = {},
       retries = [], rq = [], bdd = Map.empty, resultC = False\<rparr>
      [5, 6] [[1, 2, 3], []] [[], []] 0 ''s1''
    = Inr (None, \<lparr>chain = \<lparr>CurrentBlockNumber = 4\<rparr>, targetBN = 20, requesting = {}, processing = {5},
       retries = [6], rq = [],
       bdd = [5 \<mapsto> \<lparr>loopID = 0, streamID = ''s1''\<rparr>], resultC = False\<rparr>)"
  by (simp add: HandleRequestResult_def HandleRequestResult_bdd_def push_def getBlockNumber_def)

subsection \<open>\<open>HandleInsertError\<close>\<close>

text \<open>
  Claim C5. \<open>HandleInsertError\<close> evaluates \<open>results[n]\<close> before the test
  \<open>n != len(results)\<close>: the call returns without a panic if and only if
  \<open>0 \<le> n < len(results)\<close>, and with \<open>n = len(results)\<close> it panics with an index out of
  range.
\<close>

theorem HandleInsertError_bounds:
  "(\<exists>r. HandleInsertError gbm results n = Inr r) = (0 \<le> n \<and> n < int (length results))
   \<and> HandleInsertError gbm results (int (length results)) = Inl IndexOutOfRange"
  by (auto simp: HandleInsertError_def sliceTo_def indexAt_def sliceFrom_def Let_def
           split: sum.splits prod.splits if_splits)

text \<open>
  Claim C4, as it holds of the code. For \<open>0 \<le> n < len(results)\<close>,
  \<open>HandleInsertError(results, n)\<close> removes the heights of \<open>results[0..n)\<close> from
  \<open>processing\<close>; puts \<open>results[n+1..]\<close> back into the result queue; removes the height
  of \<open>results[n]\<close> from \<open>processing\<close> and pushes it into \<open>retries\<close>; and then removes
  from the result queue every result queued under the stream of \<open>results[n]\<close>, those of
  \<open>results[n+1..]\<close> just put back included, removing their heights from \<open>processing\<close>
  and pushing them into \<open>retries\<close>. Nothing else changes, and the method sends no
  request to the stream pool.
\<close>

theorem HandleInsertError_effect:
  assumes "0 \<le> n" and "n < int (length results)"
  shows "HandleInsertError gbm results n =
     (let errResult = results ! nat n;
          q = fold (\<lambda>res q. addBlockResults q [Some (block res)] (stid res))
                (drop (nat n + 1) results) (rq gbm);
          removed = map getBlockNumber (filter (\<lambda>res. stid res = stid errResult) q)
      in Inr (gbm\<lparr>processing := processing gbm - set (map getBlockNumber (take (nat n) results))
                                  - {getBlockNumber errResult} - set removed,
                   retries := fold push (getBlockNumber errResult # removed) (retries gbm),
                   rq := filter (\<lambda>res. stid res \<noteq> stid errResult) q\<rparr>,
              []))"
proof -
  have n1: "nat (n + 1) = nat n + 1" using assms by simp
  show ?thesis using assms
    by (simp add: HandleInsertError_def sliceTo_def indexAt_def sliceFrom_def Let_def n1
          fold_processing_inserted fold_rq_abandoned fold_processing_retries
          removeResultsByStreamID_def del: addBlockResults.simps)
qed

text \<open>
  Insertion of heights 5, 6, 7 fails at height 6, which came from stream s1, as did the
  queued height 9; 5 and 7 came from s2. Height 7 returns to the queue; 6 and 9 go to
  the retries.
\<close>

theorem HandleInsertError_witness:
  "HandleInsertError
      \<lparr>chain = \<lparr>CurrentBlockNumber = 4\<rparr>, targetBN = 20, requesting = {}, processing = {5, 6, 7, 9},
       retries = [], rq = [\<lparr>block = \<lparr>NumberU64 = 9, BlockHash = 5\<rparr>, stid = ''s1''\<rparr>],
       bdd = Map.empty, resultC = False\<rparr>
      [\<lparr>block = \<lparr>NumberU64 = 5, BlockHash = 1\<rparr>, stid = ''s2''\<rparr>,
       \<lparr>block = \<lparr>NumberU64 = 6, BlockHash = 2\<rparr>, stid = ''s1''\<rparr>,
       \<lparr>block = \<lparr>NumberU64 = 7, BlockHash = 3\<rparr>, stid = ''s2''\<rparr>] 1
    = Inr (\<lparr>chain = \<lparr>CurrentBlockNumber = 4\<rparr>, targetBN = 20, requesting = {}, processing = {7},
            retries = [6, 9],
            rq = [\<lparr>block = \<lparr>NumberU64 = 7, BlockHash = 3\<rparr>, stid = ''s2''\<rparr>],
            bdd = Map.empty, resultC = False\<rparr>, [])"
  using HandleInsertError_effect [of 1
      "[\<lparr>block = \<lparr>NumberU64 = 5, BlockHash = 1\<rparr>, stid = ''s2''\<rparr>,
       \<lparr>block = \<lparr>NumberU64 = 6, BlockHash = 2\<rparr>, stid = ''s1''\<rparr>,
       \<lparr>block = \<lparr>NumberU64 = 7, BlockHash = 3\<rparr>, stid = ''s2''\<rparr>]"
      "\<lparr>chain = \<lparr>CurrentBlockNumber = 4\<rparr>, targetBN = 20, requesting = {}, processing = {5, 6, 7, 9},
       retries = [], rq = [\<lparr>block = \<lparr>NumberU64 = 9, BlockHash = 5\<rparr>, stid = ''s1''\<rparr>],
       bdd = Map.empty, resultC = False\<rparr>"]
  by (simp add: push_def getBlockNumber_def insert_Diff_if del: set_filter)

text \<open>
  The claim as stated fails at this input: insertion of heights 5 to 8 fails at height
  6; 5, 6 and 7 came from stream s1, 8 from s2. No \<open>RemoveStream\<close> is sent for s1, and
  \<open>results[2]\<close> (height 7, stream s1) is not in the result queue after the call: it
  was put back and then scrubbed with the stream, so 7 ends in \<open>retries\<close>.
\<close>

theorem HandleInsertError_no_eviction:
  "HandleInsertError
      \<lparr>chain = \<lparr>CurrentBlockNumber = 4\<rparr>, targetBN = 20, requesting = {}, processing = {5, 6, 7, 8},
       retries = [], rq = [], bdd = Map.empty, resultC = False\<rparr>
      [\<lparr>block = \<lparr>NumberU64 = 5, BlockHash = 1\<rparr>, stid = ''s1''\<rparr>,
       \<lparr>block = \<lparr>NumberU64 = 6, BlockHash = 2\<rparr>, stid = ''s1''\<rparr>,
       \<lparr>block = \<lparr>NumberU64 = 7, BlockHash = 3\<rparr>, stid = ''s1''\<rparr>,
       \<lparr>block = \<lparr>NumberU64 = 8, BlockHash = 4\<rparr>, stid = ''s2''\<rparr>] 1
    = Inr (\<lparr>chain = \<lparr>CurrentBlockNumber = 4\<rparr>, targetBN = 20, requesting = {}, processing = {8},
            retries = [6, 7],
            rq = [\<lparr>block = \<lparr>NumberU64 = 8, BlockHash = 4\<rparr>, stid = ''s2''\<rparr>],
            bdd = Map.empty, resultC = False\<rparr>, [])"
  by (simp add: HandleInsertError_def sliceTo_def indexAt_def sliceFrom_def Let_def
        removeResultsByStreamID_def push_def getBlockNumber_def insert_Diff_if)

subsection \<open>\<open>GetNextBatch\<close>: the batch from the retries\<close>

lemma numPopped_le: "numPopped k q \<le> k"
  by (induction k q rule: numPopped.induct) auto

lemma heightsFrom_numeral:
  "heightsFrom bn (numeral k) = bn # heightsFrom (bn + 1) (pred_numeral k)"
  by (simp add: numeral_eq_Suc)

lemma numPopped_numeral:
  "numPopped (numeral k) [] = 0"
  "numPopped (numeral k) (bn # q) = (if bn = 0 then 1 else Suc (numPopped (pred_numeral k) q))"
  by (simp_all add: numeral_eq_Suc)

lemma getBatchFromRetries_loop_state:
  "nat (cap - cnt) = k \<Longrightarrow>
   getBatchFromRetries_loop cur cap cnt q acc =
     (acc @ filter (\<lambda>bn. cur < bn) (take (numPopped k q) q), drop (numPopped k q) q)"
proof (induction k q arbitrary: cnt acc rule: numPopped.induct)
  case (1 q)
  then have "\<not> cnt < cap" by simp
  then show ?case by (subst getBatchFromRetries_loop.simps) simp
next
  case (2 k)
  then have "cnt < cap" by simp
  then show ?case by (subst getBatchFromRetries_loop.simps) (simp add: pop_def)
next
  case (3 k bn q)
  then have lt: "cnt < cap" and k: "nat (cap - (cnt + 1)) = k" by simp_all
  show ?case
  proof (cases "bn = 0")
    case True
    with lt show ?thesis by (subst getBatchFromRetries_loop.simps) (simp add: pop_def)
  next
    case False
    with lt 3(1) [OF False k] show ?thesis
      by (subst getBatchFromRetries_loop.simps) (auto simp add: pop_def not_le)
  qed
qed

lemma getBatchFromRetries_state:
  "getBatchFromRetries gbm cap =
     (filter (\<lambda>bn. CurrentBlockNumber (chain gbm) < bn)
        (take (numPopped (nat cap) (retries gbm)) (retries gbm)),
      gbm\<lparr>retries := drop (numPopped (nat cap) (retries gbm)) (retries gbm)\<rparr>)"
  by (simp add: getBatchFromRetries_def Let_def getBatchFromRetries_loop_state [where k = "nat cap"])

lemma addBatchToRequesting_state:
  "addBatchToRequesting gbm bns = gbm\<lparr>requesting := requesting gbm \<union> set bns\<rparr>"
  unfolding addBatchToRequesting_def
  by (induction bns arbitrary: gbm) simp_all

lemma length_filter_take_numPopped:
  "length (filter P (take (numPopped k q) q)) \<le> k"
proof -
  have "length (filter P (take (numPopped k q) q)) \<le> length (take (numPopped k q) q)"
    by (rule length_filter_le)
  also have "\<dots> \<le> numPopped k q" by simp
  also have "\<dots> \<le> k" by (rule numPopped_le)
  finally show ?thesis .
qed

text \<open>
  Claim C8. With a soft queue cap of 0 the manager is never available for more tasks,
  whatever the length of the result queue: \<open>GetNextBatch\<close> returns exactly the batch
  drained from \<open>retries\<close> (the heights popped that lie above the chain head), adds
  these heights to \<open>requesting\<close>, and takes no height from the unprocessed range.
\<close>

theorem GetNextBatch_softQueueCap_zero:
  "GetNextBatch numBlocksByNumPerRequest 0 gbm =
     Some (filter (\<lambda>bn. CurrentBlockNumber (chain gbm) < bn)
             (take (numPopped (nat numBlocksByNumPerRequest) (retries gbm)) (retries gbm)),
           gbm\<lparr>retries := drop (numPopped (nat numBlocksByNumPerRequest) (retries gbm)) (retries gbm),
               requesting := requesting gbm \<union>
                 set (filter (\<lambda>bn. CurrentBlockNumber (chain gbm) < bn)
                   (take (numPopped (nat numBlocksByNumPerRequest) (retries gbm)) (retries gbm)))\<rparr>)"
  by (simp add: GetNextBatch_def getBatchFromRetries_state addBatchToRequesting_state
        availableForMoreTasks_def Let_def)

text \<open>
  Head 10, target 14, retries 5 and 11, soft queue cap 0: the batch is \<open>[11]\<close>, although
  height 14 is free.
\<close>

theorem GetNextBatch_softQueueCap_zero_witness:
  "GetNextBatch 3 0
     \<lparr>chain = \<lparr>CurrentBlockNumber = 10\<rparr>, targetBN = 14, requesting = {12}, processing = {13},
      retries = [5, 11], rq = [], bdd = Map.empty, resultC = False\<rparr>
   = Some ([11],
      \<lparr>chain = \<lparr>CurrentBlockNumber = 10\<rparr>, targetBN = 14, requesting = {11, 12}, processing = {13},
       retries = [], rq = [], bdd = Map.empty, resultC = False\<rparr>)"
  using GetNextBatch_softQueueCap_zero [of 3 "\<lparr>chain = \<lparr>CurrentBlockNumber = 10\<rparr>, targetBN = 14, requesting = {12}, processing = {13},
      retries = [5, 11], rq = [], bdd = Map.empty, resultC = False\<rparr>"]
  by (simp add: numPopped_numeral insert_commute del: set_filter)

subsection \<open>\<open>GetNextBatch\<close>: the batch from the unprocessed range\<close>

lemma unat_gt_target: "unat (bn::u64) = Suc (unat t) \<Longrightarrow> \<not> bn \<le> t"
  by (simp add: word_le_nat_alt)

lemma unat_le_target: "unat (bn::u64) + Suc m = Suc (unat t) \<Longrightarrow> bn \<le> t"
  by (simp add: word_le_nat_alt)

lemma unat_inc: "(t::u64) \<noteq> - 1 \<Longrightarrow> unat (t + 1) = Suc (unat t)"
  by (simp add: add.commute add_eq_0_iff unatSuc)

lemma unat_inc_le: "bn \<le> t \<Longrightarrow> t \<noteq> - 1 \<Longrightarrow> unat ((bn::u64) + 1) = Suc (unat bn)"
  by (metis add.commute add.right_inverse add_left_cancel unatSuc
    word_order.extremum_uniqueI)

lemma unat_le_cases: "(unat (bn::u64) \<le> unat h) = (h = bn \<or> Suc (unat bn) \<le> unat h)"
  by (auto simp add: word_unat_eq_iff)

lemma unat_inc_bounded: "unat (bn::u64) + Suc m < 2 ^ 64 \<Longrightarrow> unat (bn + 1) = Suc (unat bn)"
proof -
  assume b: "unat bn + Suc m < 2 ^ 64"
  have "bn \<noteq> - 1"
  proof
    assume "bn = - 1"
    then have "unat bn = 2 ^ 64 - 1" by (simp add: unsigned_minus_1_eq_mask mask_eq_exp_minus_1)
    with b show False by simp
  qed
  then show ?thesis by (rule unat_inc)
qed

lemma unat_less_max: "(w::u64) \<noteq> - 1 \<Longrightarrow> unat w < 2 ^ 64 - 1"
proof -
  assume w: "w \<noteq> - 1"
  have "unat w \<noteq> 2 ^ 64 - 1"
  proof
    assume "unat w = 2 ^ 64 - 1"
    then have "unat w = unat (- 1 :: u64)"
      by (simp add: unsigned_minus_1_eq_mask mask_eq_exp_minus_1)
    then have "w = - 1" by (simp only: word_unat_eq_iff)
    with w show False by simp
  qed
  moreover have "unat w < 2 ^ 64" using unsigned_less [of w] by simp
  ultimately show ?thesis by simp
qed

lemma getBatchFromUnprocessed_inner_past:
  "\<not> bn \<le> targetBN gbm \<Longrightarrow> getBatchFromUnprocessed_inner gbm bn acc = Some (bn, acc)"
  by (subst getBatchFromUnprocessed_inner.simps) simp

lemma getBatchFromUnprocessed_loop_past:
  "\<not> bn \<le> targetBN gbm \<Longrightarrow> getBatchFromUnprocessed_loop gbm cap cnt bn acc = Some acc"
  by (subst getBatchFromUnprocessed_loop.simps) simp

lemma getBatchFromUnprocessed_loop_done:
  "\<not> cnt < cap \<Longrightarrow> getBatchFromUnprocessed_loop gbm cap cnt bn acc = Some acc"
  by (subst getBatchFromUnprocessed_loop.simps) simp

lemma getBatchFromUnprocessed_loop_aux:
  assumes tgt: "targetBN gbm \<noteq> - 1"
  shows "unat bn + n = Suc (unat (targetBN gbm)) \<Longrightarrow>
     getBatchFromUnprocessed_loop gbm cap cnt bn acc =
       Some (acc @ take (nat (cap - cnt))
          (filter (\<lambda>b. b \<notin> requesting gbm \<and> b \<notin> processing gbm) (heightsFrom bn n)))
     \<and> (cnt < cap \<longrightarrow>
         (case getBatchFromUnprocessed_inner gbm bn acc of
            None \<Rightarrow> None
          | Some (bn', acc') \<Rightarrow> getBatchFromUnprocessed_loop gbm cap (cnt + 1) bn' acc') =
         Some (acc @ take (nat (cap - cnt))
          (filter (\<lambda>b. b \<notin> requesting gbm \<and> b \<notin> processing gbm) (heightsFrom bn n))))"
proof (induction n arbitrary: bn cnt acc)
  case 0
  then have past: "\<not> bn \<le> targetBN gbm" by (simp add: unat_gt_target)
  then show ?case
    by (simp add: getBatchFromUnprocessed_inner_past getBatchFromUnprocessed_loop_past)
next
  case (Suc m)
  let ?free = "\<lambda>b. b \<notin> requesting gbm \<and> b \<notin> processing gbm"
  from Suc.prems have le: "bn \<le> targetBN gbm" by (rule unat_le_target)
  from le tgt have inc: "unat (bn + 1) = Suc (unat bn)" by (rule unat_inc_le)
  with Suc.prems have next_ok: "unat (bn + 1) + m = Suc (unat (targetBN gbm))" by simp
  note IH = Suc.IH [OF next_ok]
  have inner_step: "cnt < cap \<Longrightarrow>
         (case getBatchFromUnprocessed_inner gbm bn acc of
            None \<Rightarrow> None
          | Some (bn', acc') \<Rightarrow> getBatchFromUnprocessed_loop gbm cap (cnt + 1) bn' acc') =
         Some (acc @ take (nat (cap - cnt)) (filter ?free (heightsFrom bn (Suc m))))"
  proof -
    assume lt: "cnt < cap"
    then have k: "nat (cap - cnt) = Suc (nat (cap - (cnt + 1)))" by simp
    show ?thesis
    proof (cases "?free bn")
      case True
      with le have "getBatchFromUnprocessed_inner gbm bn acc = Some (bn + 1, acc @ [bn])"
        by (subst getBatchFromUnprocessed_inner.simps) simp
      with True IH [of "cnt + 1" "acc @ [bn]"] k show ?thesis by simp
    next
      case False
      with le have unfold: "getBatchFromUnprocessed_inner gbm bn acc =
          getBatchFromUnprocessed_inner gbm (bn + 1) acc"
        by (subst getBatchFromUnprocessed_inner.simps) auto
      from False IH [of cnt acc] lt show ?thesis by (auto simp add: unfold)
    qed
  qed
  show ?case
  proof (cases "cnt < cap")
    case True
    with le have "getBatchFromUnprocessed_loop gbm cap cnt bn acc =
        (case getBatchFromUnprocessed_inner gbm bn acc of
            None \<Rightarrow> None
          | Some (bn', acc') \<Rightarrow> getBatchFromUnprocessed_loop gbm cap (cnt + 1) bn' acc')"
      by (subst getBatchFromUnprocessed_loop.simps) simp
    with inner_step [OF True] show ?thesis by simp
  next
    case False
    then show ?thesis by (simp add: getBatchFromUnprocessed_loop_done)
  qed
qed

lemma getBatchFromUnprocessed_state:
  assumes tgt: "targetBN gbm \<noteq> - 1"
  shows "getBatchFromUnprocessed gbm cap =
     Some (take (nat cap)
       (filter (\<lambda>b. b \<notin> requesting gbm \<and> b \<notin> processing gbm)
          (heightsFrom (CurrentBlockNumber (chain gbm) + 1)
             (Suc (unat (targetBN gbm)) - unat (CurrentBlockNumber (chain gbm) + 1)))))"
proof (cases "CurrentBlockNumber (chain gbm) + 1 \<le> targetBN gbm")
  case True
  then have "unat (CurrentBlockNumber (chain gbm) + 1) \<le> unat (targetBN gbm)"
    by (simp add: word_le_nat_alt)
  then have "unat (CurrentBlockNumber (chain gbm) + 1)
        + (Suc (unat (targetBN gbm)) - unat (CurrentBlockNumber (chain gbm) + 1))
      = Suc (unat (targetBN gbm))"
    by simp
  from getBatchFromUnprocessed_loop_aux [OF tgt this, of cap 0 "[]"] show ?thesis
    by (simp add: getBatchFromUnprocessed_def Let_def)
next
  case False
  then have "Suc (unat (targetBN gbm)) - unat (CurrentBlockNumber (chain gbm) + 1) = 0"
    by (simp add: word_le_nat_alt)
  with False show ?thesis
    by (simp add: getBatchFromUnprocessed_def Let_def getBatchFromUnprocessed_loop_past)
qed

lemma getBatchFromUnprocessed_loop_wrap:
  assumes tgt: "targetBN gbm = - 1"
  shows "getBatchFromUnprocessed_loop gbm cap cnt bn acc =
     (if cnt < cap then
        (if bn \<notin> requesting gbm \<and> bn \<notin> processing gbm
         then getBatchFromUnprocessed_loop gbm cap (cnt + 1) (bn + 1) (acc @ [bn])
         else getBatchFromUnprocessed_loop gbm cap cnt (bn + 1) acc)
      else Some acc)"
proof (cases "cnt < cap")
  case False
  then show ?thesis by (simp add: getBatchFromUnprocessed_loop_done)
next
  case True
  have unfold: "getBatchFromUnprocessed_loop gbm cap cnt b acc =
      (case getBatchFromUnprocessed_inner gbm b acc of
         None \<Rightarrow> None
       | Some (bn', acc') \<Rightarrow> getBatchFromUnprocessed_loop gbm cap (cnt + 1) bn' acc')" for b
    using True tgt by (subst getBatchFromUnprocessed_loop.simps) simp
  show ?thesis
  proof (cases "bn \<notin> requesting gbm \<and> bn \<notin> processing gbm")
    case free: True
    with tgt have "getBatchFromUnprocessed_inner gbm bn acc = Some (bn + 1, acc @ [bn])"
      by (subst getBatchFromUnprocessed_inner.simps) simp
    with True free show ?thesis by (simp add: unfold [of bn])
  next
    case tracked: False
    with tgt have "getBatchFromUnprocessed_inner gbm bn acc =
        getBatchFromUnprocessed_inner gbm (bn + 1) acc"
      by (subst getBatchFromUnprocessed_inner.simps) auto
    with True tracked show ?thesis by (auto simp add: unfold [of bn] unfold [of "bn + 1"])
  qed
qed

lemma getBatchFromUnprocessed_loop_pass:
  assumes tgt: "targetBN gbm = - 1"
  shows "getBatchFromUnprocessed_loop gbm cap cnt bn acc =
     (if nat (cap - cnt) \<le> length (filter (\<lambda>b. b \<notin> requesting gbm \<and> b \<notin> processing gbm) (heightsFrom bn n))
      then Some (acc @ take (nat (cap - cnt))
             (filter (\<lambda>b. b \<notin> requesting gbm \<and> b \<notin> processing gbm) (heightsFrom bn n)))
      else getBatchFromUnprocessed_loop gbm cap
             (cnt + int (length (filter (\<lambda>b. b \<notin> requesting gbm \<and> b \<notin> processing gbm) (heightsFrom bn n))))
             (bn + of_nat n)
             (acc @ filter (\<lambda>b. b \<notin> requesting gbm \<and> b \<notin> processing gbm) (heightsFrom bn n)))"
proof (induction n arbitrary: cnt bn acc)
  case 0
  show ?case by (simp add: getBatchFromUnprocessed_loop_done)
next
  case (Suc n)
  show ?case
  proof (cases "cnt < cap")
    case False
    then show ?thesis by (simp add: getBatchFromUnprocessed_loop_done)
  next
    case True
    then have k: "nat (cap - cnt) = Suc (nat (cap - (cnt + 1)))" by simp
    have shift: "bn + 1 + of_nat n = bn + (1 + of_nat n)" by (simp add: add.assoc)
    show ?thesis
    proof (cases "bn \<notin> requesting gbm \<and> bn \<notin> processing gbm")
      case free: True
      with True show ?thesis
        by (subst getBatchFromUnprocessed_loop_wrap [OF tgt])
           (simp add: Suc.IH [of "cnt + 1" "bn + 1" "acc @ [bn]"] k shift add.assoc)
    next
      case tracked: False
      with True show ?thesis
        by (subst getBatchFromUnprocessed_loop_wrap [OF tgt])
           (auto simp add: Suc.IH [of cnt "bn + 1" acc] shift)
    qed
  qed
qed

lemma heightsFrom_map: "heightsFrom bn n = map (\<lambda>i. bn + of_nat i) [0 ..< n]"
proof (induction n arbitrary: bn)
  case 0
  show ?case by simp
next
  case (Suc n)
  have "[0 ..< Suc n] = 0 # map Suc [0 ..< n]"
    by (simp add: upt_conv_Cons map_Suc_upt del: upt_Suc)
  then show ?case
    by (simp add: Suc.IH [of "bn + 1"] add.assoc del: upt_Suc)
qed

lemma set_heightsFrom_all: "set (heightsFrom (bn::u64) (2 ^ 64)) = UNIV"
proof -
  have "h \<in> set (heightsFrom bn (2 ^ 64))" for h
  proof -
    have "unat (h - bn) < 2 ^ 64" using unsigned_less [of "h - bn"] by simp
    moreover have "h = bn + of_nat (unat (h - bn))" by simp
    ultimately show ?thesis unfolding heightsFrom_map by (auto simp del: of_nat_unat)
  qed
  then show ?thesis by blast
qed

lemma word_full_turn: "(bn::u64) + of_nat (2 ^ 64) = bn"
  by simp

lemma getBatchFromUnprocessed_loop_turns:
  assumes tgt: "targetBN gbm = - 1"
    and fs: "filter (\<lambda>b. b \<notin> requesting gbm \<and> b \<notin> processing gbm) (heightsFrom bn (2 ^ 64)) \<noteq> []"
  shows "nat (cap - cnt) \<le> r \<Longrightarrow>
     getBatchFromUnprocessed_loop gbm cap cnt bn acc =
       Some (acc @ take (nat (cap - cnt))
         (concat (replicate r
            (filter (\<lambda>b. b \<notin> requesting gbm \<and> b \<notin> processing gbm) (heightsFrom bn (2 ^ 64))))))"
proof (induction r arbitrary: cnt acc)
  case 0
  then show ?case by (simp add: getBatchFromUnprocessed_loop_done)
next
  case (Suc r)
  define free where "free = filter (\<lambda>b. b \<notin> requesting gbm \<and> b \<notin> processing gbm) (heightsFrom bn (2 ^ 64))"
  have pos: "0 < length free" using fs by (simp add: free_def)
  have pass: "getBatchFromUnprocessed_loop gbm cap cnt bn acc =
     (if nat (cap - cnt) \<le> length free then Some (acc @ take (nat (cap - cnt)) free)
      else getBatchFromUnprocessed_loop gbm cap (cnt + int (length free)) bn (acc @ free))"
    using getBatchFromUnprocessed_loop_pass [OF tgt, of cap cnt bn acc "2 ^ 64"]
    unfolding free_def [symmetric] word_full_turn .
  show ?case
  proof (cases "nat (cap - cnt) \<le> length free")
    case True
    with pass show ?thesis unfolding free_def [symmetric] by simp
  next
    case False
    with pos Suc.prems have "nat (cap - (cnt + int (length free))) \<le> r" by arith
    from Suc.IH [OF this, of "acc @ free"] have
      "getBatchFromUnprocessed_loop gbm cap (cnt + int (length free)) bn (acc @ free) =
         Some ((acc @ free) @ take (nat (cap - (cnt + int (length free)))) (concat (replicate r free)))"
      unfolding free_def [symmetric] .
    moreover have "nat (cap - (cnt + int (length free))) = nat (cap - cnt) - length free"
      by simp
    ultimately show ?thesis using False pass unfolding free_def [symmetric] by simp
  qed
qed

lemma getBatchFromUnprocessed_inner_diverges:
  assumes ret: "getBatchFromUnprocessed_inner gbm bn acc = Some y"
  shows "\<not> (targetBN gbm = - 1 \<and> (\<forall>h. h \<in> requesting gbm \<or> h \<in> processing gbm))"
proof (rule getBatchFromUnprocessed_inner.raw_induct
    [where P = "\<lambda>g b r z. \<not> (targetBN g = - 1 \<and> (\<forall>h. h \<in> requesting g \<or> h \<in> processing g))",
     OF _ ret])
  fix f g b r z
  assume IH: "\<And>g b r z. f g b r = Some z \<Longrightarrow>
      \<not> (targetBN g = - 1 \<and> (\<forall>h. h \<in> requesting g \<or> h \<in> processing g))"
    and body: "(if b \<le> targetBN g
       then if b \<notin> requesting g \<and> b \<notin> processing g
            then Some (b + 1, r @ [b]) else f g (b + 1) r
       else Some (b, r)) = Some z"
  show "\<not> (targetBN g = - 1 \<and> (\<forall>h. h \<in> requesting g \<or> h \<in> processing g))"
  proof
    assume a: "targetBN g = - 1 \<and> (\<forall>h. h \<in> requesting g \<or> h \<in> processing g)"
    then have le: "b \<le> targetBN g" by simp
    from a have nf: "\<not> (b \<notin> requesting g \<and> b \<notin> processing g)" by blast
    from body have "f g (b + 1) r = Some z"
      unfolding if_P [OF le] if_not_P [OF nf] .
    from IH [OF this] a show False by blast
  qed
qed

lemma getBatchFromUnprocessed_wrap:
  assumes tgt: "targetBN gbm = - 1"
  shows "getBatchFromUnprocessed gbm cap =
     (if 0 < cap \<and> (\<forall>h. h \<in> requesting gbm \<or> h \<in> processing gbm) then None
      else Some (take (nat cap) (concat (replicate (nat cap)
        (filter (\<lambda>b. b \<notin> requesting gbm \<and> b \<notin> processing gbm)
           (heightsFrom (CurrentBlockNumber (chain gbm) + 1) (2 ^ 64)))))))"
proof (cases "0 < cap")
  case False
  then show ?thesis
    by (simp add: getBatchFromUnprocessed_def Let_def getBatchFromUnprocessed_loop_done)
next
  case True
  show ?thesis
  proof (cases "\<forall>h. h \<in> requesting gbm \<or> h \<in> processing gbm")
    case all: True
    have "getBatchFromUnprocessed_inner gbm bn acc = None" for bn acc
      using getBatchFromUnprocessed_inner_diverges [of gbm bn acc] tgt all
      by (cases "getBatchFromUnprocessed_inner gbm bn acc") auto
    with True tgt all show ?thesis
      by (simp add: getBatchFromUnprocessed_def Let_def getBatchFromUnprocessed_loop.simps [of gbm cap 0])
  next
    case some: False
    then obtain h where "h \<notin> requesting gbm \<and> h \<notin> processing gbm" by blast
    moreover have "h \<in> set (heightsFrom (CurrentBlockNumber (chain gbm) + 1) (2 ^ 64))"
      by (simp only: set_heightsFrom_all UNIV_I)
    ultimately have "filter (\<lambda>b. b \<notin> requesting gbm \<and> b \<notin> processing gbm)
        (heightsFrom (CurrentBlockNumber (chain gbm) + 1) (2 ^ 64)) \<noteq> []"
      by (auto simp only: filter_empty_conv)
    from getBatchFromUnprocessed_loop_turns [OF tgt this, of cap 0 "nat cap" "[]"] some
    show ?thesis
      by (simp add: getBatchFromUnprocessed_def Let_def)
  qed
qed

lemma set_heightsFrom:
  "unat bn + n < 2 ^ 64 \<Longrightarrow>
   set (heightsFrom bn n) = {h. unat bn \<le> unat h \<and> unat h < unat bn + n}"
proof (induction n arbitrary: bn)
  case 0
  show ?case by simp
next
  case (Suc m)
  from Suc.prems have inc: "unat (bn + 1) = Suc (unat bn)" by (rule unat_inc_bounded)
  with Suc.prems have "unat (bn + 1) + m < 2 ^ 64" by simp
  from Suc.IH [OF this] have IH: "set (heightsFrom (bn + 1) m) =
      {h. Suc (unat bn) \<le> unat h \<and> unat h < Suc (unat bn) + m}"
    by (simp only: inc)
  have "set (heightsFrom bn (Suc m)) = insert bn (set (heightsFrom (bn + 1) m))" by simp
  also have "\<dots> = {h. unat bn \<le> unat h \<and> unat h < unat bn + Suc m}"
    unfolding IH
  proof (rule set_eqI)
    fix h
    show "(h \<in> insert bn {h. Suc (unat bn) \<le> unat h \<and> unat h < Suc (unat bn) + m}) =
          (h \<in> {h. unat bn \<le> unat h \<and> unat h < unat bn + Suc m})"
      using unat_le_cases [of bn h] by auto
  qed
  finally show ?case .
qed

lemma sorted_wrt_heightsFrom:
  "unat bn + n < 2 ^ 64 \<Longrightarrow> sorted_wrt (<) (heightsFrom bn n)"
proof (induction n arbitrary: bn)
  case 0
  show ?case by simp
next
  case (Suc m)
  from Suc.prems have inc: "unat (bn + 1) = Suc (unat bn)" by (rule unat_inc_bounded)
  with Suc.prems have b: "unat (bn + 1) + m < 2 ^ 64" by simp
  have "\<forall>h \<in> set (heightsFrom (bn + 1) m). bn < h"
    by (simp add: set_heightsFrom [OF b] inc word_less_nat_alt)
  with Suc.IH [OF b] show ?case by simp
qed

lemma unprocessedRange:
  assumes tgt: "target \<noteq> - 1"
  shows "set (heightsFrom s (Suc (unat target) - unat s)) = {h. s \<le> h \<and> h \<le> target}"
    and "sorted_wrt (<) (heightsFrom s (Suc (unat target) - unat (s::u64)))"
proof -
  have lt: "unat target < 2 ^ 64 - 1" using tgt by (rule unat_less_max)
  have sl: "unat s < 2 ^ 64" using unsigned_less [of s] by simp
  from lt sl have b: "unat s + (Suc (unat target) - unat s) < 2 ^ 64" by arith
  show "set (heightsFrom s (Suc (unat target) - unat s)) = {h. s \<le> h \<and> h \<le> target}"
    unfolding set_heightsFrom [OF b]
    by (auto simp add: word_le_nat_alt)
  show "sorted_wrt (<) (heightsFrom s (Suc (unat target) - unat s))"
    using b by (rule sorted_wrt_heightsFrom)
qed


lemma take_filter_heightsFrom:
  "0 < n \<Longrightarrow> 0 < k \<Longrightarrow> take k (filter P (heightsFrom bn n) @ ys) =
     (if P bn then bn # take (k - 1) (filter P (heightsFrom (bn + 1) (n - 1)) @ ys)
      else take k (filter P (heightsFrom (bn + 1) (n - 1)) @ ys))"
  by (cases n; cases k) simp_all

text \<open>
  Claim C3, as it holds of the code. \<open>GetNextBatch\<close> builds its batch in two parts.

  The first part comes from \<open>retries\<close>. The loop runs at most \<open>BlocksPerRequest\<close>
  times and pops the smallest height each time; it stops early when the queue is empty
  or after it has popped a 0. The popped heights above the chain head form the first
  part; the popped heights at or below the head are dropped, but each of them has used
  one of the iterations, so heights may stay in \<open>retries\<close> although the batch is not
  full. The first part is added to \<open>requesting\<close>.

  The second part is empty unless the result queue is shorter than the soft queue cap.
  Otherwise, let \<open>room\<close> be what the first part leaves of \<open>BlocksPerRequest\<close>, and call
  a height free when it is neither in \<open>requesting\<close> (the first part included) nor in
  \<open>processing\<close>; a free height may still be waiting in \<open>retries\<close>, so it need not be
  a height that was never requested. For a target below \<open>2^64 - 1\<close> the second part is
  the first \<open>room\<close> free heights of the ascending range from \<open>head + 1\<close> to the
  target (\<open>head + 1\<close> computed in 64 bits). For the target \<open>2^64 - 1\<close> the test
  \<open>bn <= targetBN\<close> never fails and \<open>bn++\<close> wraps around to 0: the scan goes round
  the 64-bit heights from \<open>head + 1\<close>, repeatedly, until it has found \<open>room\<close> free
  heights, and if \<open>room\<close> is positive and no height is free the call does not return.
  The second part is added to \<open>requesting\<close> as well.

  Whenever the call returns, the batch has at most \<open>BlocksPerRequest\<close> heights and all
  of them are in \<open>requesting\<close>.
\<close>

theorem GetNextBatch_spec:
  "let cur = CurrentBlockNumber (chain gbm);
       n = numPopped (nat numBlocksByNumPerRequest) (retries gbm);
       fromRetries = filter (\<lambda>bn. cur < bn) (take n (retries gbm));
       room = nat (numBlocksByNumPerRequest - int (length fromRetries));
       free = (\<lambda>bn. bn \<notin> requesting gbm \<union> set fromRetries \<and> bn \<notin> processing gbm);
       range = heightsFrom (cur + 1) (Suc (unat (targetBN gbm)) - unat (cur + 1));
       returns = (\<lambda>fresh. Some (fromRetries @ fresh,
                    gbm\<lparr>retries := drop n (retries gbm),
                        requesting := requesting gbm \<union> set fromRetries \<union> set fresh\<rparr>))
   in GetNextBatch numBlocksByNumPerRequest softQueueCap gbm =
        (if \<not> int (length (rq gbm)) < softQueueCap then returns []
         else if targetBN gbm \<noteq> - 1 then returns (take room (filter free range))
         else if 0 < room \<and> (\<forall>h. \<not> free h) then None
         else returns (take room (concat (replicate room (filter free (heightsFrom (cur + 1) (2 ^ 64)))))))
      \<and> (\<forall>bns gbm'. GetNextBatch numBlocksByNumPerRequest softQueueCap gbm = Some (bns, gbm') \<longrightarrow>
            length bns \<le> nat numBlocksByNumPerRequest \<and> set bns \<subseteq> requesting gbm')
      \<and> (targetBN gbm \<noteq> - 1 \<longrightarrow>
            set range = {h. cur + 1 \<le> h \<and> h \<le> targetBN gbm} \<and> sorted_wrt (<) range)"
proof -
  define c where "c = CurrentBlockNumber (chain gbm)"
  define n where "n = numPopped (nat numBlocksByNumPerRequest) (retries gbm)"
  define rb where "rb = filter (\<lambda>bn. c < bn) (take n (retries gbm))"
  define room where "room = nat (numBlocksByNumPerRequest - int (length rb))"
  define free where "free = (\<lambda>bn. bn \<notin> requesting gbm \<union> set rb \<and> bn \<notin> processing gbm)"
  define range where "range = heightsFrom (c + 1) (Suc (unat (targetBN gbm)) - unat (c + 1))"
  define returns where "returns = (\<lambda>fresh. Some (rb @ fresh,
                    gbm\<lparr>retries := drop n (retries gbm),
                        requesting := requesting gbm \<union> set rb \<union> set fresh\<rparr>))"
  define gbm2 where "gbm2 = gbm\<lparr>retries := drop n (retries gbm), requesting := requesting gbm \<union> set rb\<rparr>"
  define cap where "cap = numBlocksByNumPerRequest - int (length rb)"
  have room_cap: "room = nat cap" by (simp add: room_def cap_def)
  have r1: "getBatchFromRetries gbm numBlocksByNumPerRequest =
      (rb, gbm\<lparr>retries := drop n (retries gbm)\<rparr>)"
    by (simp only: getBatchFromRetries_state rb_def n_def c_def)
  have a1: "addBatchToRequesting (gbm\<lparr>retries := drop n (retries gbm)\<rparr>) rb = gbm2"
    by (simp add: addBatchToRequesting_state gbm2_def)
  have avail: "availableForMoreTasks softQueueCap gbm2 = (int (length (rq gbm)) < softQueueCap)"
    by (simp add: availableForMoreTasks_def gbm2_def)
  have a2: "Some (rb @ bns, addBatchToRequesting gbm2 bns) = returns bns" for bns
    by (simp add: addBatchToRequesting_state gbm2_def returns_def)
  have a0: "Some (rb, gbm2) = returns []"
    by (simp add: gbm2_def returns_def)
  have start: "GetNextBatch numBlocksByNumPerRequest softQueueCap gbm =
      (if int (length (rq gbm)) < softQueueCap
       then (case getBatchFromUnprocessed gbm2 cap of
               None \<Rightarrow> None
             | Some addBNs \<Rightarrow> returns addBNs)
       else returns [])"
    unfolding GetNextBatch_def Let_def r1 prod.case a1 avail a2 a0 cap_def ..
  have unproc: "getBatchFromUnprocessed gbm2 cap = Some (take room (filter free range))"
    if "targetBN gbm \<noteq> - 1"
    using that getBatchFromUnprocessed_state [of gbm2 cap]
    by (simp add: gbm2_def range_def c_def free_def room_cap)
  have wrap: "getBatchFromUnprocessed gbm2 cap =
      (if 0 < room \<and> (\<forall>h. \<not> free h) then None
       else Some (take room (concat (replicate room (filter free (heightsFrom (c + 1) (2 ^ 64)))))))"
    if "targetBN gbm = - 1"
    using that getBatchFromUnprocessed_wrap [of gbm2 cap]
    by (simp add: gbm2_def c_def free_def room_cap)
  have run: "GetNextBatch numBlocksByNumPerRequest softQueueCap gbm =
        (if \<not> int (length (rq gbm)) < softQueueCap then returns []
         else if targetBN gbm \<noteq> - 1 then returns (take room (filter free range))
         else if 0 < room \<and> (\<forall>h. \<not> free h) then None
         else returns (take room (concat (replicate room (filter free (heightsFrom (c + 1) (2 ^ 64)))))))"
  proof (cases "targetBN gbm = - 1")
    case True
    show ?thesis unfolding start wrap [OF True] using True by auto
  next
    case False
    show ?thesis unfolding start unproc [OF False] using False by simp
  qed
  have rbk: "length rb \<le> nat numBlocksByNumPerRequest"
    unfolding rb_def n_def by (rule length_filter_take_numPopped)
  have bound: "length (rb @ take room xs) \<le> nat numBlocksByNumPerRequest" for xs
    using rbk by (simp add: room_def)
  have ret: "returns fresh = Some (bns, gbm') \<Longrightarrow> bns = rb @ fresh \<and> set bns \<subseteq> requesting gbm'"
    for fresh bns gbm'
    by (auto simp add: returns_def)
  have post: "\<forall>bns gbm'. GetNextBatch numBlocksByNumPerRequest softQueueCap gbm = Some (bns, gbm') \<longrightarrow>
            length bns \<le> nat numBlocksByNumPerRequest \<and> set bns \<subseteq> requesting gbm'"
  proof (intro allI impI)
    fix bns gbm'
    assume some: "GetNextBatch numBlocksByNumPerRequest softQueueCap gbm = Some (bns, gbm')"
    then obtain xs where "returns (take room xs) = Some (bns, gbm')"
      unfolding run by (metis option.distinct(1) take_Nil)
    from ret [OF this] bound [of xs]
    show "length bns \<le> nat numBlocksByNumPerRequest \<and> set bns \<subseteq> requesting gbm'" by auto
  qed
  have rng: "targetBN gbm \<noteq> - 1 \<longrightarrow>
            set range = {h. c + 1 \<le> h \<and> h \<le> targetBN gbm} \<and> sorted_wrt (<) range"
    unfolding range_def using unprocessedRange [of "targetBN gbm" "c + 1"] by blast
  show ?thesis
    unfolding Let_def
    using run post rng
    unfolding returns_def range_def free_def room_def rb_def n_def c_def
    by blast
qed

text \<open>
  Head 10, target 14, height 12 requested, 13 in processing, retries 5 and 11, up to 3
  heights per request: 5 is stale and dropped, 11 is taken from the retries, and 14 is
  the only free height of the range 11 to 14. Head \<open>2^64 - 2\<close>, target \<open>2^64 - 1\<close>,
  height \<open>2^64 - 1\<close> requested, up to 2 heights per request: the scan starts at
  \<open>2^64 - 1\<close>, which is not free, wraps around and takes 0 and 1.
\<close>

theorem GetNextBatch_witness:
  "GetNextBatch 3 100
     \<lparr>chain = \<lparr>CurrentBlockNumber = 10\<rparr>, targetBN = 14, requesting = {12}, processing = {13},
      retries = [5, 11], rq = [], bdd = Map.empty, resultC = False\<rparr>
   = Some ([11, 14],
      \<lparr>chain = \<lparr>CurrentBlockNumber = 10\<rparr>, targetBN = 14, requesting = {11, 12, 14}, processing = {13},
       retries = [], rq = [], bdd = Map.empty, resultC = False\<rparr>)
   \<and> GetNextBatch 2 100
     \<lparr>chain = \<lparr>CurrentBlockNumber = 18446744073709551614\<rparr>, targetBN = 18446744073709551615,
      requesting = {18446744073709551615}, processing = {},
      retries = [], rq = [], bdd = Map.empty, resultC = False\<rparr>
   = Some ([0, 1],
      \<lparr>chain = \<lparr>CurrentBlockNumber = 18446744073709551614\<rparr>, targetBN = 18446744073709551615,
       requesting = {18446744073709551615, 0, 1}, processing = {},
       retries = [], rq = [], bdd = Map.empty, resultC = False\<rparr>)"
proof
  show "GetNextBatch 3 100
     \<lparr>chain = \<lparr>CurrentBlockNumber = 10\<rparr>, targetBN = 14, requesting = {12}, processing = {13},
      retries = [5, 11], rq = [], bdd = Map.empty, resultC = False\<rparr>
   = Some ([11, 14],
      \<lparr>chain = \<lparr>CurrentBlockNumber = 10\<rparr>, targetBN = 14, requesting = {11, 12, 14}, processing = {13},
       retries = [], rq = [], bdd = Map.empty, resultC = False\<rparr>)"
    using GetNextBatch_spec [of "\<lparr>chain = \<lparr>CurrentBlockNumber = 10\<rparr>, targetBN = 14, requesting = {12}, processing = {13},
      retries = [5, 11], rq = [], bdd = Map.empty, resultC = False\<rparr>" 3 100]
    by (simp add: Let_def numPopped_numeral heightsFrom_numeral insert_commute del: set_filter)
  have free: "\<not> (\<forall>h::u64. h = 18446744073709551615)"
  proof
    assume "\<forall>h::u64. h = 18446744073709551615"
    then have "(0::u64) = 18446744073709551615" by (rule spec)
    then show False by simp
  qed
  have two: "replicate 2 xs = [xs, xs]" for xs :: "u64 list" by (simp add: numeral_2_eq_2)
  have w0: "(18446744073709551616 :: u64) = 0" by simp
  have w1: "(18446744073709551617 :: u64) = 1" by simp
  have "GetNextBatch 2 100
     \<lparr>chain = \<lparr>CurrentBlockNumber = 18446744073709551614\<rparr>, targetBN = 18446744073709551615,
      requesting = {18446744073709551615}, processing = {},
      retries = [], rq = [], bdd = Map.empty, resultC = False\<rparr>
   = Some ([18446744073709551616, 18446744073709551617],
      \<lparr>chain = \<lparr>CurrentBlockNumber = 18446744073709551614\<rparr>, targetBN = 18446744073709551615,
       requesting = {18446744073709551615, 18446744073709551616, 18446744073709551617}, processing = {},
       retries = [], rq = [], bdd = Map.empty, resultC = False\<rparr>)"
    using GetNextBatch_spec [of "\<lparr>chain = \<lparr>CurrentBlockNumber = 18446744073709551614\<rparr>, targetBN = 18446744073709551615,
      requesting = {18446744073709551615}, processing = {},
      retries = [], rq = [], bdd = Map.empty, resultC = False\<rparr>" 2 100]
    by (simp add: Let_def free two take_filter_heightsFrom del: set_filter take_append)
  then show "GetNextBatch 2 100
     \<lparr>chain = \<lparr>CurrentBlockNumber = 18446744073709551614\<rparr>, targetBN = 18446744073709551615,
      requesting = {18446744073709551615}, processing = {},
      retries = [], rq = [], bdd = Map.empty, resultC = False\<rparr>
   = Some ([0, 1],
      \<lparr>chain = \<lparr>CurrentBlockNumber = 18446744073709551614\<rparr>, targetBN = 18446744073709551615,
       requesting = {18446744073709551615, 0, 1}, processing = {},
       retries = [], rq = [], bdd = Map.empty, resultC = False\<rparr>)"
    unfolding w0 w1 .
qed

text \<open>
  The claim as stated fails at these two inputs, with up to 3 heights per request.
  With head 10, target 12 and retries 1, 2, 3, 11, the three iterations of the retry
  loop are used up by the stale heights 1, 2 and 3; height 11 is then handed out by the
  scan of the unprocessed range, although it was requested before, and it stays in
  \<open>retries\<close>, to be handed out again by a later call. With head \<open>2^64 - 3\<close> and target
  \<open>2^64 - 1\<close> the batch ends with height 0, which is not above the head.
\<close>

theorem GetNextBatch_stale_retries_and_wrap:
  "GetNextBatch 3 100
     \<lparr>chain = \<lparr>CurrentBlockNumber = 10\<rparr>, targetBN = 12, requesting = {}, processing = {},
      retries = [1, 2, 3, 11], rq = [], bdd = Map.empty, resultC = False\<rparr>
   = Some ([11, 12],
      \<lparr>chain = \<lparr>CurrentBlockNumber = 10\<rparr>, targetBN = 12, requesting = {11, 12}, processing = {},
       retries = [11], rq = [], bdd = Map.empty, resultC = False\<rparr>)
   \<and> GetNextBatch 3 100
     \<lparr>chain = \<lparr>CurrentBlockNumber = 18446744073709551613\<rparr>, targetBN = 18446744073709551615,
      requesting = {}, processing = {},
      retries = [], rq = [], bdd = Map.empty, resultC = False\<rparr>
   = Some ([18446744073709551614, 18446744073709551615, 0],
      \<lparr>chain = \<lparr>CurrentBlockNumber = 18446744073709551613\<rparr>, targetBN = 18446744073709551615,
       requesting = {18446744073709551614, 18446744073709551615, 0}, processing = {},
       retries = [], rq = [], bdd = Map.empty, resultC = False\<rparr>)"
proof
  have wrap: "(18446744073709551616 :: u64) = 0" by simp
  show "GetNextBatch 3 100
     \<lparr>chain = \<lparr>CurrentBlockNumber = 10\<rparr>, targetBN = 12, requesting = {}, processing = {},
      retries = [1, 2, 3, 11], rq = [], bdd = Map.empty, resultC = False\<rparr>
   = Some ([11, 12],
      \<lparr>chain = \<lparr>CurrentBlockNumber = 10\<rparr>, targetBN = 12, requesting = {11, 12}, processing = {},
       retries = [11], rq = [], bdd = Map.empty, resultC = False\<rparr>)"
    by (simp add: GetNextBatch_def getBatchFromRetries_state addBatchToRequesting_state
          availableForMoreTasks_def getBatchFromUnprocessed_state Let_def
          numPopped_numeral heightsFrom_numeral insert_commute del: set_filter)
  show "GetNextBatch 3 100
     \<lparr>chain = \<lparr>CurrentBlockNumber = 18446744073709551613\<rparr>, targetBN = 18446744073709551615,
      requesting = {}, processing = {},
      retries = [], rq = [], bdd = Map.empty, resultC = False\<rparr>
   = Some ([18446744073709551614, 18446744073709551615, 0],
      \<lparr>chain = \<lparr>CurrentBlockNumber = 18446744073709551613\<rparr>, targetBN = 18446744073709551615,
       requesting = {18446744073709551614, 18446744073709551615, 0}, processing = {},
       retries = [], rq = [], bdd = Map.empty, resultC = False\<rparr>)"
    by (simp add: GetNextBatch_def getBatchFromRetries_state addBatchToRequesting_state
          availableForMoreTasks_def getBatchFromUnprocessed_def getBatchFromUnprocessed_loop_wrap
          Let_def numPopped_numeral insert_commute wrap)
qed

end
